theory Spec2Isabelle
  imports Complex_Main "HOL-Library.Word"
begin

unbundle bit_operations_syntax

section \<open>Data model\<close>

text \<open>
  The development follows \<^verbatim>\<open>licecap/duplicate_frame_removal.cpp\<close> and its header.
  A \<^verbatim>\<open>LICE_pixel\<close> is an unsigned 32-bit value.  C \<^verbatim>\<open>int\<close> and \<^verbatim>\<open>long\<close> values that
  hold sizes, coordinates, steps and counters are mathematical integers (the model
  describes the runs of the code in which this arithmetic does not overflow, which is
  undefined behaviour in C); frame delays, which the collapser adds up, are 32-bit words
  read as two's complement.  A \<^verbatim>\<open>double\<close> is a real number and the division of two
  counts is exact.
\<close>

type_synonym LICE_pixel = "32 word"

text \<open>
  Modelled from the spec: the macros \<^verbatim>\<open>LICE_RGBA\<close>, \<^verbatim>\<open>LICE_GETR\<close>, \<^verbatim>\<open>LICE_GETG\<close>,
  \<^verbatim>\<open>LICE_GETB\<close> and \<^verbatim>\<open>LICE_GETA\<close> of \<^verbatim>\<open>WDL/lice/lice.h\<close> are not part of the sources at
  hand.  A pixel is a packed 4-channel (R,G,B,A) value with one byte per channel; the
  bytes are laid out, from the least significant one, as B, G, R, A.
\<close>

definition LICE_RGBA :: "32 word \<Rightarrow> 32 word \<Rightarrow> 32 word \<Rightarrow> 32 word \<Rightarrow> LICE_pixel" where
  "LICE_RGBA r g b a =
     (b AND 0xff) OR push_bit 8 (g AND 0xff) OR push_bit 16 (r AND 0xff) OR push_bit 24 (a AND 0xff)"

definition LICE_GETB :: "LICE_pixel \<Rightarrow> 32 word" where
  "LICE_GETB v = v AND 0xff"

definition LICE_GETG :: "LICE_pixel \<Rightarrow> 32 word" where
  "LICE_GETG v = drop_bit 8 v AND 0xff"

definition LICE_GETR :: "LICE_pixel \<Rightarrow> 32 word" where
  "LICE_GETR v = drop_bit 16 v AND 0xff"

definition LICE_GETA :: "LICE_pixel \<Rightarrow> 32 word" where
  "LICE_GETA v = drop_bit 24 v AND 0xff"

text \<open>
  \<^verbatim>\<open>LICE_IBitmap\<close>: the accessors the code calls.  \<open>getBits\<close> is the memory the pixel
  pointer addresses, as a function of the offset (in pixels) from that pointer.
\<close>

record LICE_IBitmap =
  getWidth :: int
  getHeight :: int
  getRowSpan :: int
  isFlipped :: bool
  getBits :: "int \<Rightarrow> LICE_pixel"

text \<open>The Windows \<^verbatim>\<open>RECT\<close>; the field names carry a prefix, \<open>top\<close> being taken in HOL.\<close>

record RECT =
  r_left :: int
  r_top :: int
  r_right :: int
  r_bottom :: int

datatype DuplicateRemovalMode = kDuplicateKeepFirst | kDuplicateKeepLast

datatype DelayAdjustMode = kDontAdjust | kAverage | kSum

record DuplicateFrameRemovalSettings =
  similarity_threshold :: real
  sample_step_x :: int
  sample_step_y :: int
  per_channel_tolerance :: int
  channel_mask :: LICE_pixel
  keep_mode :: DuplicateRemovalMode
  delay_adjust_mode :: DelayAdjustMode
  enable_early_out :: bool

text \<open>
  \<^verbatim>\<open>FrameInfo\<close>; the region fields \<^verbatim>\<open>x, y, w, h\<close> are \<open>roi_x\<close>, \<open>roi_y\<close>, \<open>roi_w\<close>, \<open>roi_h\<close>.
  A null \<^verbatim>\<open>bmp\<close> is \<open>None\<close>.
\<close>

record FrameInfo =
  index :: int
  bmp :: "LICE_IBitmap option"
  delay_ms :: "32 word"
  roi_x :: int
  roi_y :: int
  roi_w :: int
  roi_h :: int

section \<open>Pixel equality\<close>

text \<open>\<^verbatim>\<open>int d = (int)c1 - (int)c2; if (d < 0) d = -d;\<close> on two extracted channel values.\<close>

definition channel_distance :: "32 word \<Rightarrow> 32 word \<Rightarrow> int" where
  "channel_distance c1 c2 = (let d = uint c1 - uint c2 in if d < 0 then - d else d)"

definition pixels_equal :: "LICE_pixel \<Rightarrow> LICE_pixel \<Rightarrow> DuplicateFrameRemovalSettings \<Rightarrow> bool" where
  "pixels_equal p1 p2 cfg =
     (if per_channel_tolerance cfg \<le> 0 then (p1 XOR p2) AND channel_mask cfg = 0
      else let tol = per_channel_tolerance cfg in
        if channel_mask cfg AND LICE_RGBA 255 0 0 0 \<noteq> 0
           \<and> channel_distance (LICE_GETR p1) (LICE_GETR p2) > tol then False
        else if channel_mask cfg AND LICE_RGBA 0 255 0 0 \<noteq> 0
           \<and> channel_distance (LICE_GETG p1) (LICE_GETG p2) > tol then False
        else if channel_mask cfg AND LICE_RGBA 0 0 255 0 \<noteq> 0
           \<and> channel_distance (LICE_GETB p1) (LICE_GETB p2) > tol then False
        else if channel_mask cfg AND LICE_RGBA 0 0 0 255 \<noteq> 0
           \<and> channel_distance (LICE_GETA p1) (LICE_GETA p2) > tol then False
        else True)"


text \<open>The constructor \<^verbatim>\<open>DuplicateFrameRemovalSettings()\<close> of the header.\<close>

definition default_settings :: DuplicateFrameRemovalSettings where
  "default_settings =
     \<lparr> similarity_threshold = 0.90, sample_step_x = 1, sample_step_y = 1,
       per_channel_tolerance = 0, channel_mask = LICE_RGBA 255 255 255 0,
       keep_mode = kDuplicateKeepFirst, delay_adjust_mode = kSum, enable_early_out = True \<rparr>"

text \<open>The constructor \<^verbatim>\<open>FrameInfo(int idx, LICE_IBitmap* b, int delay)\<close> of the header.\<close>

definition FrameInfo_ctor :: "int \<Rightarrow> LICE_IBitmap option \<Rightarrow> 32 word \<Rightarrow> FrameInfo" where
  "FrameInfo_ctor idx b delay =
     \<lparr> index = idx, bmp = b, delay_ms = delay, roi_x = 0, roi_y = 0, roi_w = 0, roi_h = 0 \<rparr>"

section \<open>Region of interest\<close>

definition clampi :: "int \<Rightarrow> int \<Rightarrow> int \<Rightarrow> int" where
  "clampi v lo hi = (if v < lo then lo else (if v > hi then hi else v))"

definition compute_roi :: "LICE_IBitmap option \<Rightarrow> LICE_IBitmap option \<Rightarrow> RECT option \<Rightarrow> RECT" where
  "compute_roi a b roi_in =
     (let aw = (case a of Some A \<Rightarrow> getWidth A | None \<Rightarrow> 0);
          ah = (case a of Some A \<Rightarrow> getHeight A | None \<Rightarrow> 0);
          bw = (case b of Some B \<Rightarrow> getWidth B | None \<Rightarrow> 0);
          bh = (case b of Some B \<Rightarrow> getHeight B | None \<Rightarrow> 0);
          w = (if aw < bw then aw else bw);
          h = (if ah < bh then ah else bh)
      in case roi_in of
           None \<Rightarrow> \<lparr> r_left = 0, r_top = 0, r_right = w, r_bottom = h \<rparr>
         | Some ri \<Rightarrow>
             (let l = clampi (r_left ri) 0 w;
                  t = clampi (r_top ri) 0 h;
                  rt = clampi (r_right ri) 0 w;
                  bt = clampi (r_bottom ri) 0 h
              in \<lparr> r_left = l, r_top = t,
                   r_right = (if rt < l then l else rt),
                   r_bottom = (if bt < t then t else bt) \<rparr>))"

section \<open>The exact bitmap comparison used by the fast path\<close>

text \<open>
  \<^verbatim>\<open>LICE_BitmapCmpEx\<close> as \<^verbatim>\<open>licecap/test_duplicate_simple.cpp\<close> implements it for linking
  (the library's own version lives in WDL, outside the sources at hand).  The running
  bounding box is \<open>(minx, miny, maxx, maxy)\<close>; the result is the return value and the four
  \<^verbatim>\<open>coordsOut\<close> entries.  A bitmap of the model always has a pixel pointer, so the test
  for a null \<^verbatim>\<open>getBits()\<close> has no counterpart.
\<close>

type_synonym bbox = "int \<times> int \<times> int \<times> int"

definition bbox_add :: "int \<Rightarrow> int \<Rightarrow> bbox \<Rightarrow> bbox" where
  "bbox_add x y bb =
     (case bb of (minx, miny, maxx, maxy) \<Rightarrow>
        (if x < minx then x else minx, if y < miny then y else miny,
         if x > maxx then x else maxx, if y > maxy then y else maxy))"

function cmp_cols ::
  "(int \<Rightarrow> LICE_pixel) \<Rightarrow> (int \<Rightarrow> LICE_pixel) \<Rightarrow> LICE_pixel \<Rightarrow> int \<Rightarrow> int \<Rightarrow> int \<Rightarrow> bbox \<Rightarrow> bbox"
where
  "cmp_cols r1 r2 msk aw y x bb =
     (if x < aw
      then cmp_cols r1 r2 msk aw y (x + 1)
             (if (r1 x XOR r2 x) AND msk \<noteq> 0 then bbox_add x y bb else bb)
      else bb)"
  by pat_completeness auto
termination
  by (relation "measure (\<lambda>(r1, r2, msk, aw, y, x, bb). nat (aw - x))") auto

declare cmp_cols.simps [simp del]

function cmp_rows ::
  "(int \<Rightarrow> LICE_pixel) \<Rightarrow> (int \<Rightarrow> LICE_pixel) \<Rightarrow> int \<Rightarrow> int \<Rightarrow> LICE_pixel \<Rightarrow> int \<Rightarrow> int \<Rightarrow> int
     \<Rightarrow> bbox \<Rightarrow> bbox"
where
  "cmp_rows p1 p2 rs1 rs2 msk aw ah y bb =
     (if y < ah
      then cmp_rows p1 p2 rs1 rs2 msk aw ah (y + 1)
             (cmp_cols (\<lambda>x. p1 (y * rs1 + x)) (\<lambda>x. p2 (y * rs2 + x)) msk aw y 0 bb)
      else bb)"
  by pat_completeness auto
termination
  by (relation "measure (\<lambda>(p1, p2, rs1, rs2, msk, aw, ah, y, bb). nat (ah - y))") auto

declare cmp_rows.simps [simp del]

definition LICE_BitmapCmpEx ::
  "LICE_IBitmap option \<Rightarrow> LICE_IBitmap option \<Rightarrow> LICE_pixel \<Rightarrow> int \<times> (int \<times> int \<times> int \<times> int)"
where
  "LICE_BitmapCmpEx a b msk =
     (case (a, b) of
        (Some A, Some B) \<Rightarrow>
          (let aw = getWidth A; ah = getHeight A; bw = getWidth B; bh = getHeight B in
           if aw \<noteq> bw \<or> ah \<noteq> bh
           then (1, (0, 0, if aw > bw then aw else bw, if ah > bh then ah else bh))
           else if aw \<le> 0 \<or> ah \<le> 0 then (0, (0, 0, 0, 0))
           else
             (case cmp_rows (getBits A) (getBits B) (getRowSpan A) (getRowSpan B) msk aw ah 0
                     (aw, ah, - 1, - 1) of
                (minx, miny, maxx, maxy) \<Rightarrow>
                  if maxx < minx \<or> maxy < miny then (0, (0, 0, 0, 0))
                  else (1, (minx, miny, maxx - minx + 1, maxy - miny + 1))))
      | _ \<Rightarrow> (1, (0, 0, 0, 0)))"

section \<open>Similarity\<close>

text \<open>C's integer division, which truncates towards zero.\<close>

definition c_div :: "int \<Rightarrow> int \<Rightarrow> int" where
  "c_div a b = (if (a < 0) = (b < 0) then \<bar>a\<bar> div \<bar>b\<bar> else - (\<bar>a\<bar> div \<bar>b\<bar>))"

text \<open>The constants \<^verbatim>\<open>sX\<close> and \<^verbatim>\<open>sY\<close> of \<^verbatim>\<open>CalculateSimilarity\<close>.\<close>

definition sX :: "DuplicateFrameRemovalSettings \<Rightarrow> int" where
  "sX cfg = (if sample_step_x cfg > 0 then sample_step_x cfg else 1)"

definition sY :: "DuplicateFrameRemovalSettings \<Rightarrow> int" where
  "sY cfg = (if sample_step_y cfg > 0 then sample_step_y cfg else 1)"

text \<open>
  The inner loop over \<^verbatim>\<open>xx\<close>.  The state is \<open>(equal_count, processed)\<close>; the flag of the
  result tells that the loop left through \<^verbatim>\<open>goto CALC_FINISH\<close>.
\<close>

function scan_cols ::
  "DuplicateFrameRemovalSettings \<Rightarrow> (int \<Rightarrow> LICE_pixel) \<Rightarrow> (int \<Rightarrow> LICE_pixel) \<Rightarrow> int \<Rightarrow> int \<Rightarrow> int
     \<Rightarrow> int \<times> int \<Rightarrow> (int \<times> int) \<times> bool"
where
  "scan_cols cfg row1 row2 right total_samples xx (equal_count, processed) =
     (if xx < right
      then
        (let a_px = row1 xx;
             b_px = row2 xx;
             equal_count' = (if pixels_equal a_px b_px cfg then equal_count + 1 else equal_count);
             processed' = processed + 1;
             remaining = total_samples - processed';
             best_case_equal = equal_count' + remaining;
             best_case_sim = real_of_int best_case_equal / real_of_int total_samples
         in if enable_early_out cfg \<and> best_case_sim < similarity_threshold cfg
            then ((equal_count', processed'), True)
            else scan_cols cfg row1 row2 right total_samples (xx + sX cfg)
                   (equal_count', processed'))
      else ((equal_count, processed), False))"
  by pat_completeness auto
termination
  by (relation "measure (\<lambda>(cfg, row1, row2, right, total_samples, xx, st). nat (right - xx))")
     (auto simp: sX_def)

declare scan_cols.simps [simp del]

text \<open>The outer loop over \<^verbatim>\<open>yy\<close>; \<open>r\<close> is the effective region.\<close>

function scan_rows ::
  "DuplicateFrameRemovalSettings \<Rightarrow> (int \<Rightarrow> LICE_pixel) \<Rightarrow> int \<Rightarrow> (int \<Rightarrow> LICE_pixel) \<Rightarrow> int \<Rightarrow> RECT
     \<Rightarrow> int \<Rightarrow> int \<Rightarrow> int \<times> int \<Rightarrow> (int \<times> int) \<times> bool"
where
  "scan_rows cfg p1 span1 p2 span2 r total_samples yy st =
     (if yy < r_bottom r
      then
        (let row1 = (\<lambda>xx. p1 (yy * span1 + xx));
             row2 = (\<lambda>xx. p2 (yy * span2 + xx))
         in case scan_cols cfg row1 row2 (r_right r) total_samples (r_left r) st of
              (st', True) \<Rightarrow> (st', True)
            | (st', False) \<Rightarrow> scan_rows cfg p1 span1 p2 span2 r total_samples (yy + sY cfg) st')
      else (st, False))"
  by pat_completeness auto
termination
  by (relation "measure (\<lambda>(cfg, p1, span1, p2, span2, r, total_samples, yy, st).
        nat (r_bottom r - yy))")
     (auto simp: sY_def)

declare scan_rows.simps [simp del]

text \<open>
  The pixel pointer and row span the scan uses for a bitmap: for a flipped bitmap the
  pointer is moved to the last stored row and the span negated.
\<close>

definition scan_origin :: "LICE_IBitmap \<Rightarrow> (int \<Rightarrow> LICE_pixel) \<times> int" where
  "scan_origin a =
     (if isFlipped a
      then (\<lambda>i. getBits a (getRowSpan a * (getHeight a - 1) + i), - getRowSpan a)
      else (getBits a, getRowSpan a))"

text \<open>The manual scan with sampling and optional early-out, from the pointer set-up on.\<close>

definition generic_scan ::
  "LICE_IBitmap \<Rightarrow> LICE_IBitmap \<Rightarrow> RECT \<Rightarrow> DuplicateFrameRemovalSettings \<Rightarrow> real" where
  "generic_scan a b r cfg =
     (let rw = r_right r - r_left r;
          rh = r_bottom r - r_top r;
          (p1, span1) = scan_origin a;
          (p2, span2) = scan_origin b;
          roi_w_s = c_div (rw + (sX cfg - 1)) (sX cfg);
          roi_h_s = c_div (rh + (sY cfg - 1)) (sY cfg);
          total_samples = roi_w_s * roi_h_s
      in if total_samples \<le> 0 then 1
         else
           (case scan_rows cfg p1 span1 p2 span2 r total_samples (r_top r) (0, 0) of
              ((equal_count, processed), stopped) \<Rightarrow>
                if processed \<le> 0 then 1
                else
                  (let sim = real_of_int equal_count / real_of_int total_samples;
                       sim = (if sim < 0 then 0 else sim);
                       sim = (if sim > 1 then 1 else sim)
                   in sim)))"

text \<open>The condition under which the fast path is taken.\<close>

definition fast_path :: "LICE_IBitmap \<Rightarrow> RECT \<Rightarrow> DuplicateFrameRemovalSettings \<Rightarrow> bool" where
  "fast_path a r cfg =
     (per_channel_tolerance cfg \<le> 0 \<and> sample_step_x cfg = 1 \<and> sample_step_y cfg = 1 \<and>
      r_left r = 0 \<and> r_top r = 0 \<and> r_right r = getWidth a \<and> r_bottom r = getHeight a)"

text \<open>The body of the fast path: identical, or a rough estimate by area ratio.\<close>

definition fast_path_similarity ::
  "LICE_IBitmap \<Rightarrow> LICE_IBitmap \<Rightarrow> DuplicateFrameRemovalSettings \<Rightarrow> real" where
  "fast_path_similarity a b cfg =
     (case LICE_BitmapCmpEx (Some a) (Some b) (channel_mask cfg) of
        (ret, (d0, d1, d2, d3)) \<Rightarrow>
          if ret = 0 then 1
          else
            (let total = getWidth a * getHeight a;
                 diff = d2 * d3
             in if total \<le> 0 then 0
                else
                  (let approx = 1 - real_of_int diff / real_of_int total;
                       approx = (if approx < 0 then 0 else approx);
                       approx = (if approx > 1 then 1 else approx)
                   in approx)))"

definition CalculateSimilarity ::
  "LICE_IBitmap option \<Rightarrow> LICE_IBitmap option \<Rightarrow> RECT option \<Rightarrow> DuplicateFrameRemovalSettings \<Rightarrow> real"
where
  "CalculateSimilarity a b roi cfg =
     (case (a, b) of
        (Some A, Some B) \<Rightarrow>
          if getWidth A \<noteq> getWidth B \<or> getHeight A \<noteq> getHeight B then 0
          else
            (let r = compute_roi a b roi;
                 rw = r_right r - r_left r;
                 rh = r_bottom r - r_top r
             in if rw \<le> 0 \<or> rh \<le> 0 then 1
                else if fast_path A r cfg then fast_path_similarity A B cfg
                else generic_scan A B r cfg)
      | _ \<Rightarrow> 0)"

section \<open>Duplicate test for two frames\<close>

text \<open>The result pairs the return value with the value written to \<^verbatim>\<open>out_similarity\<close>.\<close>

definition IsDuplicateFrame ::
  "FrameInfo \<Rightarrow> FrameInfo \<Rightarrow> DuplicateFrameRemovalSettings \<Rightarrow> bool \<times> real" where
  "IsDuplicateFrame prev cur cfg =
     (case (bmp prev, bmp cur) of
        (Some pb, Some cb) \<Rightarrow>
          (let roi =
                 (if roi_w cur > 0 \<and> roi_h cur > 0
                  then \<lparr> r_left = roi_x cur, r_top = roi_y cur,
                         r_right = roi_x cur + roi_w cur, r_bottom = roi_y cur + roi_h cur \<rparr>
                  else if roi_w prev > 0 \<and> roi_h prev > 0
                  then \<lparr> r_left = roi_x prev, r_top = roi_y prev,
                         r_right = roi_x prev + roi_w prev, r_bottom = roi_y prev + roi_h prev \<rparr>
                  else \<lparr> r_left = 0, r_top = 0,
                         r_right = (if getWidth pb < getWidth cb then getWidth pb else getWidth cb),
                         r_bottom = (if getHeight pb < getHeight cb then getHeight pb
                                     else getHeight cb) \<rparr>);
               sim = CalculateSimilarity (bmp prev) (bmp cur) (Some roi) cfg
           in (sim \<ge> similarity_threshold cfg, sim))
      | _ \<Rightarrow> (False, 0))"

section \<open>Growable arrays\<close>

text \<open>
  \<^verbatim>\<open>FrameArray\<close> and \<^verbatim>\<open>IndexArray\<close> (their declarations are outside the sources at hand;
  the fields are those the code uses).  \<open>frames\<close> holds the entries in use, so that the
  field \<^verbatim>\<open>count\<close> is the length of the list.  Allocation always succeeds in the model.
\<close>

record FrameArray =
  frames :: "FrameInfo list"
  capacity :: nat

record IndexArray =
  indices :: "nat list"
  idx_capacity :: nat

definition FrameArray_Init :: "nat \<Rightarrow> FrameArray" where
  "FrameArray_Init initial_capacity = \<lparr> frames = [], capacity = initial_capacity \<rparr>"

definition IndexArray_Init :: "nat \<Rightarrow> IndexArray" where
  "IndexArray_Init initial_capacity = \<lparr> indices = [], idx_capacity = initial_capacity \<rparr>"

definition FrameArray_Add :: "FrameArray \<Rightarrow> FrameInfo \<Rightarrow> FrameArray" where
  "FrameArray_Add arr frame =
     (let arr = (if length (frames arr) \<ge> capacity arr
                 then arr\<lparr> capacity := (if capacity arr = 0 then 16 else capacity arr * 2) \<rparr>
                 else arr)
      in arr\<lparr> frames := frames arr @ [frame] \<rparr>)"

definition IndexArray_Add :: "IndexArray \<Rightarrow> nat \<Rightarrow> IndexArray" where
  "IndexArray_Add arr i =
     (let arr = (if length (indices arr) \<ge> idx_capacity arr
                 then arr\<lparr> idx_capacity :=
                            (if idx_capacity arr = 0 then 16 else idx_capacity arr * 2) \<rparr>
                 else arr)
      in arr\<lparr> indices := indices arr @ [i] \<rparr>)"

section \<open>Collapsing runs of duplicates\<close>

text \<open>The local variables of \<^verbatim>\<open>RemoveDuplicateFrames\<close> and the two containers it fills.\<close>

record collapse_state =
  pending :: FrameInfo
  group_count :: int
  group_delay_sum :: "32 word"
  removed :: nat
  output_arr :: "FrameArray option"
  removed_indices :: "IndexArray option"

text \<open>
  The delay adjustment made at each flush.  The average is an \<^verbatim>\<open>int\<close> division, on the
  delay sum read as a signed value.
\<close>

definition adjust_delay ::
  "DuplicateFrameRemovalSettings \<Rightarrow> FrameInfo \<Rightarrow> int \<Rightarrow> 32 word \<Rightarrow> FrameInfo" where
  "adjust_delay cfg pend grp_count grp_delay_sum =
     (if delay_adjust_mode cfg = kSum then pend\<lparr> delay_ms := grp_delay_sum \<rparr>
      else if delay_adjust_mode cfg = kAverage \<and> grp_count > 0
      then pend\<lparr> delay_ms := word_of_int (c_div (sint grp_delay_sum) grp_count) \<rparr>
      else pend)"

text \<open>The loop over \<^verbatim>\<open>i = 1 .. input_count - 1\<close>; the list holds \<^verbatim>\<open>input[i], input[i+1], ...\<close>\<close>

fun collapse_loop ::
  "DuplicateFrameRemovalSettings \<Rightarrow> nat \<Rightarrow> FrameInfo list \<Rightarrow> collapse_state \<Rightarrow> collapse_state"
where
  "collapse_loop cfg i [] st = st"
| "collapse_loop cfg i (cur # rest) st =
     (case IsDuplicateFrame (pending st) cur cfg of
        (is_dup, sim) \<Rightarrow>
          if is_dup
          then
            (let st = st\<lparr> group_count := group_count st + 1,
                          group_delay_sum := group_delay_sum st + delay_ms cur \<rparr>
             in if keep_mode cfg = kDuplicateKeepFirst
                then collapse_loop cfg (i + 1) rest
                       (st\<lparr> removed := removed st + 1,
                            removed_indices :=
                              map_option (\<lambda>arr. IndexArray_Add arr i) (removed_indices st) \<rparr>)
                else collapse_loop cfg (i + 1) rest
                       (st\<lparr> pending := cur,
                            removed := removed st + 1,
                            removed_indices :=
                              map_option (\<lambda>arr. IndexArray_Add arr (i - 1)) (removed_indices st) \<rparr>))
          else
            collapse_loop cfg (i + 1) rest
              (st\<lparr> output_arr :=
                     map_option
                       (\<lambda>arr. FrameArray_Add arr
                          (adjust_delay cfg (pending st) (group_count st) (group_delay_sum st)))
                       (output_arr st),
                   pending := cur,
                   group_count := 1,
                   group_delay_sum := delay_ms cur \<rparr>))"

text \<open>
  \<^verbatim>\<open>RemoveDuplicateFrames\<close>.  The input pointer and count are a list (a null pointer or a
  zero count is the empty list); \<open>output0\<close> and \<open>removed_indices0\<close> are the two containers
  as the caller passes them, \<open>None\<close> for a null pointer, and come back as the call leaves
  them, next to the return value.
\<close>

definition RemoveDuplicateFrames ::
  "FrameInfo list \<Rightarrow> FrameArray option \<Rightarrow> DuplicateFrameRemovalSettings option \<Rightarrow> IndexArray option
     \<Rightarrow> nat \<times> FrameArray option \<times> IndexArray option"
where
  "RemoveDuplicateFrames input output0 cfg removed_indices0 =
     (case (input, cfg) of
        (first # rest, Some c) \<Rightarrow>
          (let out = map_option (\<lambda>arr. FrameArray_Init (length input div 2)) output0;
               rem = map_option (\<lambda>arr. IndexArray_Init (length input div 4)) removed_indices0;
               st = collapse_loop c 1 rest
                      \<lparr> pending = first, group_count = 1, group_delay_sum = delay_ms first,
                        removed = 0, output_arr = out, removed_indices = rem \<rparr>;
               pend = adjust_delay c (pending st) (group_count st) (group_delay_sum st)
           in (removed st, map_option (\<lambda>arr. FrameArray_Add arr pend) (output_arr st),
               removed_indices st))
      | _ \<Rightarrow> (0, output0, removed_indices0))"

text \<open>
  The operation as the tests call it: both containers are passed in empty, and the
  result is the output sequence, the removed count and the removed indices.  On a
  non-empty input the code resets both containers itself; on the empty input it returns
  before that, and the empty result is the content the containers are passed in with.
\<close>

definition remove_duplicates ::
  "FrameInfo list \<Rightarrow> DuplicateFrameRemovalSettings \<Rightarrow> FrameInfo list \<times> nat \<times> nat list" where
  "remove_duplicates input cfg =
     (case RemoveDuplicateFrames input (Some (FrameArray_Init 0)) (Some cfg)
             (Some (IndexArray_Init 0)) of
        (n, out, rem) \<Rightarrow>
          (case out of Some arr \<Rightarrow> frames arr | None \<Rightarrow> [],
           n,
           case rem of Some arr \<Rightarrow> indices arr | None \<Rightarrow> []))"

section \<open>Fixtures of the test programs\<close>

text \<open>
  \<^verbatim>\<open>make_solid\<close> and \<^verbatim>\<open>SimpleBitmap::setPixel\<close> of \<^verbatim>\<open>licecap/test_duplicate_simple.cpp\<close>:
  a bitmap with tightly packed rows, stored top-down, of one colour, and the write of one
  pixel.  Memory outside the buffer reads as the fill colour.
\<close>

definition make_solid :: "int \<Rightarrow> int \<Rightarrow> LICE_pixel \<Rightarrow> LICE_IBitmap" where
  "make_solid w h px =
     (let w = (if w < 0 then 0 else w); h = (if h < 0 then 0 else h)
      in \<lparr> getWidth = w, getHeight = h, getRowSpan = (if w > 0 then w else 0),
           isFlipped = False, getBits = (\<lambda>i. px) \<rparr>)"

definition setPixel :: "LICE_IBitmap \<Rightarrow> int \<Rightarrow> int \<Rightarrow> LICE_pixel \<Rightarrow> LICE_IBitmap" where
  "setPixel bm x y px =
     (if x < 0 \<or> y < 0 \<or> x \<ge> getWidth bm \<or> y \<ge> getHeight bm then bm
      else bm\<lparr> getBits := (getBits bm)(y * getRowSpan bm + x := px) \<rparr>)"

text \<open>The region a frame carries, as the rectangle \<^verbatim>\<open>IsDuplicateFrame\<close> builds from it.\<close>

definition frame_region :: "FrameInfo \<Rightarrow> RECT" where
  "frame_region f =
     \<lparr> r_left = roi_x f, r_top = roi_y f,
       r_right = roi_x f + roi_w f, r_bottom = roi_y f + roi_h f \<rparr>"

text \<open>
  The score \<^verbatim>\<open>IsDuplicateFrame\<close> computes for two frames that show the bitmaps \<open>X\<close> and
  \<open>Y\<close> and carry no region of their own.
\<close>

definition frame_similarity ::
  "LICE_IBitmap \<Rightarrow> LICE_IBitmap \<Rightarrow> DuplicateFrameRemovalSettings \<Rightarrow> real" where
  "frame_similarity X Y cfg =
     snd (IsDuplicateFrame (FrameInfo_ctor 0 (Some X) 0) (FrameInfo_ctor 0 (Some Y) 0) cfg)"

section \<open>Runs\<close>

text \<open>
  The runs of an input sequence, following the description of the collapsing pass: a run
  starts at a frame and grows while the next frame is a duplicate of the run's
  representative, which is the first frame of the run under keep-first and the latest
  frame of the run under keep-last.  \<open>kept_frame\<close> is the frame of a run that is kept.
\<close>

fun runs_from ::
  "DuplicateFrameRemovalSettings \<Rightarrow> FrameInfo \<Rightarrow> FrameInfo list \<Rightarrow> FrameInfo list
     \<Rightarrow> FrameInfo list list"
where
  "runs_from cfg rep run [] = [run]"
| "runs_from cfg rep run (f # fs) =
     (if fst (IsDuplicateFrame rep f cfg)
      then runs_from cfg (if keep_mode cfg = kDuplicateKeepFirst then rep else f) (run @ [f]) fs
      else run # runs_from cfg f [f] fs)"

definition runs :: "DuplicateFrameRemovalSettings \<Rightarrow> FrameInfo list \<Rightarrow> FrameInfo list list" where
  "runs cfg input = (case input of [] \<Rightarrow> [] | f # fs \<Rightarrow> runs_from cfg f [f] fs)"

definition kept_frame :: "DuplicateFrameRemovalSettings \<Rightarrow> FrameInfo list \<Rightarrow> FrameInfo" where
  "kept_frame cfg run = (if keep_mode cfg = kDuplicateKeepFirst then hd run else last run)"

text \<open>The kept frame of a run, carrying the sum of the delays of the run.\<close>

definition summed :: "DuplicateFrameRemovalSettings \<Rightarrow> FrameInfo list \<Rightarrow> FrameInfo" where
  "summed cfg r = (kept_frame cfg r)\<lparr> delay_ms := sum_list (map delay_ms r) \<rparr>"

text \<open>No frame of the list is classified a duplicate of the frame before it.\<close>

fun adjacent_distinct :: "DuplicateFrameRemovalSettings \<Rightarrow> FrameInfo list \<Rightarrow> bool" where
  "adjacent_distinct cfg (x # y # ys) =
     (\<not> fst (IsDuplicateFrame x y cfg) \<and> adjacent_distinct cfg (y # ys))"
| "adjacent_distinct cfg xs = True"

text \<open>
  The pixel in column \<open>x\<close> of row \<open>y\<close> of a bitmap, as the scan addresses it:
  \<^verbatim>\<open>row[x]\<close> with \<^verbatim>\<open>row = p + y * span\<close>, for the pointer and span of \<open>scan_origin\<close>.
\<close>

definition pixel_at :: "LICE_IBitmap \<Rightarrow> int \<Rightarrow> int \<Rightarrow> LICE_pixel" where
  "pixel_at bm x y = (case scan_origin bm of (p, rowspan) \<Rightarrow> p (y * rowspan + x))"

section \<open>The samples of a scan, as a list\<close>

text \<open>
  The coordinates a loop \<^verbatim>\<open>for (v = lo; v < hi; v += s)\<close> visits, the classification of the
  sampled pixel pairs in the order the scan visits them, and the counting of the scan
  over such a list.  These restate the two loops; \<open>scan_rows_samples\<close> below proves that
  they compute the same.
\<close>

function sample_points :: "int \<Rightarrow> int \<Rightarrow> int \<Rightarrow> int list" where
  "sample_points s lo hi = (if lo < hi \<and> 0 < s then lo # sample_points s (lo + s) hi else [])"
  by pat_completeness auto
termination
  by (relation "measure (\<lambda>(s, lo, hi). nat (hi - lo))") auto

declare sample_points.simps [simp del]

definition row_samples ::
  "DuplicateFrameRemovalSettings \<Rightarrow> (int \<Rightarrow> LICE_pixel) \<Rightarrow> int \<Rightarrow> (int \<Rightarrow> LICE_pixel) \<Rightarrow> int \<Rightarrow> RECT
     \<Rightarrow> int \<Rightarrow> bool list"
where
  "row_samples cfg p1 span1 p2 span2 r yy =
     map (\<lambda>xx. pixels_equal (p1 (yy * span1 + xx)) (p2 (yy * span2 + xx)) cfg)
       (sample_points (sX cfg) (r_left r) (r_right r))"

definition samples ::
  "DuplicateFrameRemovalSettings \<Rightarrow> LICE_IBitmap \<Rightarrow> LICE_IBitmap \<Rightarrow> RECT \<Rightarrow> bool list" where
  "samples cfg a b r =
     (case (scan_origin a, scan_origin b) of
        ((p1, span1), (p2, span2)) \<Rightarrow>
          concat (map (row_samples cfg p1 span1 p2 span2 r)
                    (sample_points (sY cfg) (r_top r) (r_bottom r))))"

fun scan_list ::
  "DuplicateFrameRemovalSettings \<Rightarrow> int \<Rightarrow> bool list \<Rightarrow> int \<times> int \<Rightarrow> (int \<times> int) \<times> bool"
where
  "scan_list cfg total_samples [] st = (st, False)"
| "scan_list cfg total_samples (e # es) (equal_count, processed) =
     (let equal_count' = (if e then equal_count + 1 else equal_count);
          processed' = processed + 1
      in if enable_early_out cfg
            \<and> real_of_int (equal_count' + (total_samples - processed')) / real_of_int total_samples
                < similarity_threshold cfg
         then ((equal_count', processed'), True)
         else scan_list cfg total_samples es (equal_count', processed'))"

section \<open>Pixel equality and the channel mask\<close>

lemma bit32: "bit (m::32 word) n \<Longrightarrow> n < 32"
  by (drule bit_imp_le_length) simp

lemma and_field_zero_iff:
  fixes m :: "32 word"
  shows "(m AND push_bit k (mask 8) = 0) = (\<forall>n. k \<le> n \<and> n < k + 8 \<longrightarrow> \<not> bit m n)"
proof
  assume z: "m AND push_bit k (mask 8) = 0"
  show "\<forall>n. k \<le> n \<and> n < k + 8 \<longrightarrow> \<not> bit m n"
  proof (intro allI impI notI)
    fix n assume n: "k \<le> n \<and> n < k + 8" and b: "bit m n"
    have "bit (m AND push_bit k (mask 8)) n"
      using n b bit32[OF b] by (auto simp add: bit_and_iff bit_push_bit_iff bit_mask_iff)
    with z show False by simp
  qed
next
  assume a: "\<forall>n. k \<le> n \<and> n < k + 8 \<longrightarrow> \<not> bit m n"
  show "m AND push_bit k (mask 8) = 0"
  proof (rule bit_eqI)
    fix n
    show "bit (m AND push_bit k (mask 8)) n = bit (0::32 word) n"
      using a by (auto simp add: bit_and_iff bit_push_bit_iff bit_mask_iff)
  qed
qed

lemma xor_and_zero_iff:
  fixes p q m :: "32 word"
  shows "((p XOR q) AND m = 0) = (\<forall>n. bit m n \<longrightarrow> bit p n = bit q n)"
proof
  assume z: "(p XOR q) AND m = 0"
  show "\<forall>n. bit m n \<longrightarrow> bit p n = bit q n"
  proof (intro allI impI)
    fix n assume b: "bit m n"
    have "\<not> bit ((p XOR q) AND m) n" using z by simp
    with b show "bit p n = bit q n" by (simp add: bit_and_iff bit_xor_iff)
  qed
next
  assume a: "\<forall>n. bit m n \<longrightarrow> bit p n = bit q n"
  show "(p XOR q) AND m = 0"
  proof (rule bit_eqI)
    fix n
    show "bit ((p XOR q) AND m) n = bit (0::32 word) n"
      using a by (auto simp add: bit_and_iff bit_xor_iff)
  qed
qed

lemma RGBA_R: "LICE_RGBA 255 0 0 0 = push_bit 16 (mask 8)"
  by (simp add: LICE_RGBA_def mask_eq_exp_minus_1)
lemma RGBA_G: "LICE_RGBA 0 255 0 0 = push_bit 8 (mask 8)"
  by (simp add: LICE_RGBA_def mask_eq_exp_minus_1)
lemma RGBA_B: "LICE_RGBA 0 0 255 0 = push_bit 0 (mask 8)"
  by (simp add: LICE_RGBA_def mask_eq_exp_minus_1)
lemma RGBA_A: "LICE_RGBA 0 0 0 255 = push_bit 24 (mask 8)"
  by (simp add: LICE_RGBA_def mask_eq_exp_minus_1)

lemma channel_distance_le: "(channel_distance c1 c2 > tol) = (\<not> \<bar>uint c1 - uint c2\<bar> \<le> tol)"
  by (auto simp: channel_distance_def Let_def)


lemma channel_selected_R:
  "(m AND LICE_RGBA 255 0 0 0 \<noteq> 0) = (\<exists>n. 16 \<le> n \<and> n < 24 \<and> bit m n)"
  using and_field_zero_iff [of m 16] by (auto simp: RGBA_R)
lemma channel_selected_G:
  "(m AND LICE_RGBA 0 255 0 0 \<noteq> 0) = (\<exists>n. 8 \<le> n \<and> n < 16 \<and> bit m n)"
  using and_field_zero_iff [of m 8] by (auto simp: RGBA_G)
lemma channel_selected_B:
  "(m AND LICE_RGBA 0 0 255 0 \<noteq> 0) = (\<exists>n. n < 8 \<and> bit m n)"
  using and_field_zero_iff [of m 0] by (auto simp: RGBA_B)
lemma channel_selected_A:
  "(m AND LICE_RGBA 0 0 0 255 \<noteq> 0) = (\<exists>n. 24 \<le> n \<and> n < 32 \<and> bit m n)"
  using and_field_zero_iff [of m 24] by (auto simp: RGBA_A)

lemma byte_mask: "(255 :: 32 word) = mask 8"
  by (simp add: mask_eq_exp_minus_1)

lemma field_zero_iff:
  fixes m :: "32 word"
  assumes "k + 8 \<le> 32"
  shows "(drop_bit k m AND mask 8 = 0) = (\<forall>n. k \<le> n \<and> n < k + 8 \<longrightarrow> \<not> bit m n)"
proof
  assume z: "drop_bit k m AND mask 8 = 0"
  show "\<forall>n. k \<le> n \<and> n < k + 8 \<longrightarrow> \<not> bit m n"
  proof (intro allI impI notI)
    fix n assume n: "k \<le> n \<and> n < k + 8" and b: "bit m n"
    have "bit (drop_bit k m AND mask 8) (n - k)"
      using n b by (auto simp add: bit_and_iff bit_drop_bit_eq bit_mask_iff)
    with z show False by simp
  qed
next
  assume a: "\<forall>n. k \<le> n \<and> n < k + 8 \<longrightarrow> \<not> bit m n"
  show "drop_bit k m AND mask 8 = 0"
  proof (rule bit_eqI)
    fix n
    show "bit (drop_bit k m AND mask 8) n = bit (0::32 word) n"
      using a [rule_format, of "k + n"] by (auto simp add: bit_and_iff bit_drop_bit_eq bit_mask_iff)
  qed
qed

lemma GETR_zero_iff: "(LICE_GETR m = 0) = (\<forall>n. 16 \<le> n \<and> n < 24 \<longrightarrow> \<not> bit m n)"
  using field_zero_iff [of 16 m] by (simp add: LICE_GETR_def byte_mask)
lemma GETG_zero_iff: "(LICE_GETG m = 0) = (\<forall>n. 8 \<le> n \<and> n < 16 \<longrightarrow> \<not> bit m n)"
  using field_zero_iff [of 8 m] by (simp add: LICE_GETG_def byte_mask)
lemma GETB_zero_iff: "(LICE_GETB m = 0) = (\<forall>n. n < 8 \<longrightarrow> \<not> bit m n)"
  using field_zero_iff [of 0 m] by (simp add: LICE_GETB_def byte_mask)
lemma GETA_zero_iff: "(LICE_GETA m = 0) = (\<forall>n. 24 \<le> n \<and> n < 32 \<longrightarrow> \<not> bit m n)"
  using field_zero_iff [of 24 m] by (simp add: LICE_GETA_def byte_mask)


lemma selects_R: "(m AND LICE_RGBA 255 0 0 0 \<noteq> 0) = (LICE_GETR m \<noteq> 0)"
  by (simp add: channel_selected_R GETR_zero_iff)
lemma selects_G: "(m AND LICE_RGBA 0 255 0 0 \<noteq> 0) = (LICE_GETG m \<noteq> 0)"
  by (simp add: channel_selected_G GETG_zero_iff)
lemma selects_B: "(m AND LICE_RGBA 0 0 255 0 \<noteq> 0) = (LICE_GETB m \<noteq> 0)"
  by (simp add: channel_selected_B GETB_zero_iff)
lemma selects_A: "(m AND LICE_RGBA 0 0 0 255 \<noteq> 0) = (LICE_GETA m \<noteq> 0)"
  by (simp add: channel_selected_A GETA_zero_iff)

text \<open>
  C10.  With a positive tolerance a channel takes part in the test exactly when its byte
  of the channel mask is not zero (at least one bit of the 8-bit field is set, see
  \<open>GETR_zero_iff\<close> and its siblings), and a channel that takes part is compared over its
  full 8-bit value: the absolute difference must not exceed the tolerance.  Hence two
  pixels that differ only in channels whose mask byte is zero are equal.  With tolerance
  0 (or below) the pixels are equal exactly when they agree on every bit that is set in
  the mask.
\<close>

theorem pixels_equal_channels:
  "(0 < per_channel_tolerance cfg \<longrightarrow>
      pixels_equal p1 p2 cfg =
        ((LICE_GETR (channel_mask cfg) \<noteq> 0 \<longrightarrow>
            \<bar>uint (LICE_GETR p1) - uint (LICE_GETR p2)\<bar> \<le> per_channel_tolerance cfg) \<and>
         (LICE_GETG (channel_mask cfg) \<noteq> 0 \<longrightarrow>
            \<bar>uint (LICE_GETG p1) - uint (LICE_GETG p2)\<bar> \<le> per_channel_tolerance cfg) \<and>
         (LICE_GETB (channel_mask cfg) \<noteq> 0 \<longrightarrow>
            \<bar>uint (LICE_GETB p1) - uint (LICE_GETB p2)\<bar> \<le> per_channel_tolerance cfg) \<and>
         (LICE_GETA (channel_mask cfg) \<noteq> 0 \<longrightarrow>
            \<bar>uint (LICE_GETA p1) - uint (LICE_GETA p2)\<bar> \<le> per_channel_tolerance cfg)))
   \<and> (0 < per_channel_tolerance cfg
        \<and> (LICE_GETR (channel_mask cfg) = 0 \<or> LICE_GETR p1 = LICE_GETR p2)
        \<and> (LICE_GETG (channel_mask cfg) = 0 \<or> LICE_GETG p1 = LICE_GETG p2)
        \<and> (LICE_GETB (channel_mask cfg) = 0 \<or> LICE_GETB p1 = LICE_GETB p2)
        \<and> (LICE_GETA (channel_mask cfg) = 0 \<or> LICE_GETA p1 = LICE_GETA p2)
      \<longrightarrow> pixels_equal p1 p2 cfg)
   \<and> (per_channel_tolerance cfg \<le> 0 \<longrightarrow>
        pixels_equal p1 p2 cfg = (\<forall>n. bit (channel_mask cfg) n \<longrightarrow> bit p1 n = bit p2 n))"
proof -
  let ?m = "channel_mask cfg" and ?t = "per_channel_tolerance cfg"
  have part1: "pixels_equal p1 p2 cfg =
        ((LICE_GETR ?m \<noteq> 0 \<longrightarrow> \<bar>uint (LICE_GETR p1) - uint (LICE_GETR p2)\<bar> \<le> ?t) \<and>
         (LICE_GETG ?m \<noteq> 0 \<longrightarrow> \<bar>uint (LICE_GETG p1) - uint (LICE_GETG p2)\<bar> \<le> ?t) \<and>
         (LICE_GETB ?m \<noteq> 0 \<longrightarrow> \<bar>uint (LICE_GETB p1) - uint (LICE_GETB p2)\<bar> \<le> ?t) \<and>
         (LICE_GETA ?m \<noteq> 0 \<longrightarrow> \<bar>uint (LICE_GETA p1) - uint (LICE_GETA p2)\<bar> \<le> ?t))"
    if "0 < ?t"
    using that
    by (simp add: pixels_equal_def Let_def selects_R selects_G selects_B selects_A
          channel_distance_le)
  have part2: "pixels_equal p1 p2 cfg"
    if "0 < ?t"
      and "LICE_GETR ?m = 0 \<or> LICE_GETR p1 = LICE_GETR p2"
      and "LICE_GETG ?m = 0 \<or> LICE_GETG p1 = LICE_GETG p2"
      and "LICE_GETB ?m = 0 \<or> LICE_GETB p1 = LICE_GETB p2"
      and "LICE_GETA ?m = 0 \<or> LICE_GETA p1 = LICE_GETA p2"
    using that unfolding part1 [OF that(1)] by auto
  have part3: "pixels_equal p1 p2 cfg = (\<forall>n. bit ?m n \<longrightarrow> bit p1 n = bit p2 n)"
    if "?t \<le> 0"
    using that by (simp add: pixels_equal_def xor_and_zero_iff)
  from part1 part2 part3 show ?thesis by blast
qed

theorem pixels_equal_channels_witness:
  "0 < per_channel_tolerance (default_settings\<lparr>per_channel_tolerance := 2\<rparr>)
   \<and> LICE_GETA (channel_mask default_settings) = 0
   \<and> LICE_GETR (LICE_RGBA 9 100 100 0) = LICE_GETR (LICE_RGBA 9 100 100 200)
   \<and> pixels_equal (LICE_RGBA 9 100 100 0) (LICE_RGBA 9 100 100 200)
         (default_settings\<lparr>per_channel_tolerance := 2\<rparr>)
   \<and> \<not> pixels_equal (LICE_RGBA 9 100 100 0) (LICE_RGBA 12 100 100 200)
         (default_settings\<lparr>per_channel_tolerance := 2\<rparr>)
   \<and> per_channel_tolerance default_settings = 0
   \<and> \<not> pixels_equal (LICE_RGBA 0 0 0 0) (LICE_RGBA 0 0 1 0) default_settings"
proof -
  let ?c = "default_settings\<lparr>per_channel_tolerance := 2\<rparr>"
  have a: "pixels_equal (LICE_RGBA 9 100 100 0) (LICE_RGBA 9 100 100 200) ?c"
    using pixels_equal_channels [of ?c "LICE_RGBA 9 100 100 0" "LICE_RGBA 9 100 100 200"]
    by (simp add: default_settings_def LICE_RGBA_def LICE_GETR_def LICE_GETG_def
          LICE_GETB_def LICE_GETA_def)
  have b: "\<not> pixels_equal (LICE_RGBA 9 100 100 0) (LICE_RGBA 12 100 100 200) ?c"
    using pixels_equal_channels [of ?c "LICE_RGBA 9 100 100 0" "LICE_RGBA 12 100 100 200"]
    by (simp add: default_settings_def LICE_RGBA_def LICE_GETR_def LICE_GETG_def
          LICE_GETB_def LICE_GETA_def)
  have "pixels_equal (LICE_RGBA 0 0 0 0) (LICE_RGBA 0 0 1 0) default_settings =
        (\<forall>n. bit (channel_mask default_settings) n \<longrightarrow>
           bit (LICE_RGBA 0 0 0 0) n = bit (LICE_RGBA 0 0 1 0) n)"
    using pixels_equal_channels [of default_settings "LICE_RGBA 0 0 0 0" "LICE_RGBA 0 0 1 0"]
    by (simp add: default_settings_def)
  moreover have "bit (channel_mask default_settings) 0
      \<and> bit (LICE_RGBA 0 0 0 0) 0 \<noteq> bit (LICE_RGBA 0 0 1 0) 0"
    by (simp add: default_settings_def LICE_RGBA_def)
  ultimately have c: "\<not> pixels_equal (LICE_RGBA 0 0 0 0) (LICE_RGBA 0 0 1 0) default_settings"
    by blast
  from a b c show ?thesis
    by (simp add: default_settings_def LICE_RGBA_def LICE_GETR_def LICE_GETA_def)
qed


section \<open>Evaluation on concrete inputs\<close>

text \<open>The equations that let the simplifier run the model on concrete bitmaps.\<close>

lemmas sim_eval = CalculateSimilarity_def compute_roi_def clampi_def fast_path_def
  fast_path_similarity_def generic_scan_def scan_origin_def sX_def sY_def c_div_def
  scan_rows.simps scan_cols.simps pixels_equal_def LICE_BitmapCmpEx_def cmp_rows.simps
  cmp_cols.simps bbox_add_def make_solid_def setPixel_def default_settings_def LICE_RGBA_def
  Let_def IsDuplicateFrame_def FrameInfo_ctor_def

section \<open>Degenerate results of the similarity\<close>

text \<open>
  C2.  \<^verbatim>\<open>CalculateSimilarity\<close> checks in this order: a null bitmap on either side gives
  0; otherwise bitmaps of different width or height give 0, whatever the region;
  otherwise an effective region (\<open>compute_roi\<close>: the caller's region clamped to the common
  bounds, an inverted edge collapsed) of zero width or zero height gives 1.
\<close>

theorem CalculateSimilarity_degenerate:
  "(a = None \<or> b = None \<longrightarrow> CalculateSimilarity a b roi cfg = 0)
   \<and> (getWidth A \<noteq> getWidth B \<or> getHeight A \<noteq> getHeight B \<longrightarrow>
        CalculateSimilarity (Some A) (Some B) roi cfg = 0)
   \<and> (getWidth A = getWidth B \<and> getHeight A = getHeight B
        \<and> (r_right (compute_roi (Some A) (Some B) roi) - r_left (compute_roi (Some A) (Some B) roi) = 0
           \<or> r_bottom (compute_roi (Some A) (Some B) roi) - r_top (compute_roi (Some A) (Some B) roi) = 0)
        \<longrightarrow> CalculateSimilarity (Some A) (Some B) roi cfg = 1)"
  by (auto simp: CalculateSimilarity_def Let_def split: option.splits)

theorem CalculateSimilarity_degenerate_witness:
  "CalculateSimilarity None (Some (make_solid 4 4 0)) None default_settings = 0
   \<and> getWidth (make_solid 4 4 0) \<noteq> getWidth (make_solid 5 4 0)
   \<and> CalculateSimilarity (Some (make_solid 4 4 0)) (Some (make_solid 5 4 0)) None default_settings = 0
   \<and> r_right (compute_roi (Some (make_solid 4 4 0)) (Some (make_solid 4 4 1))
        (Some \<lparr>r_left = 2, r_top = 2, r_right = 2, r_bottom = 5\<rparr>))
      - r_left (compute_roi (Some (make_solid 4 4 0)) (Some (make_solid 4 4 1))
        (Some \<lparr>r_left = 2, r_top = 2, r_right = 2, r_bottom = 5\<rparr>)) = 0
   \<and> CalculateSimilarity (Some (make_solid 4 4 0)) (Some (make_solid 4 4 1))
        (Some \<lparr>r_left = 2, r_top = 2, r_right = 2, r_bottom = 5\<rparr>) default_settings = 1"
proof -
  let ?r = "Some \<lparr>r_left = 2, r_top = 2, r_right = 2, r_bottom = 5\<rparr>"
  have w: "getWidth (make_solid 4 4 0) \<noteq> getWidth (make_solid 5 4 0)"
    by (simp add: make_solid_def)
  have e: "r_right (compute_roi (Some (make_solid 4 4 0)) (Some (make_solid 4 4 1)) ?r)
      - r_left (compute_roi (Some (make_solid 4 4 0)) (Some (make_solid 4 4 1)) ?r) = 0"
    by (simp add: compute_roi_def make_solid_def clampi_def)
  have d: "getWidth (make_solid 4 4 0) = getWidth (make_solid 4 4 1)
      \<and> getHeight (make_solid 4 4 0) = getHeight (make_solid 4 4 1)"
    by (simp add: make_solid_def)
  from CalculateSimilarity_degenerate [where a = None and b = "Some (make_solid 4 4 0)" and roi = None and cfg = default_settings]
  have 1: "CalculateSimilarity None (Some (make_solid 4 4 0)) None default_settings = 0"
    by simp
  from CalculateSimilarity_degenerate [where A = "make_solid 4 4 0" and B = "make_solid 5 4 0" and roi = None and cfg = default_settings] w
  have 2: "CalculateSimilarity (Some (make_solid 4 4 0)) (Some (make_solid 5 4 0)) None default_settings = 0"
    by blast
  from CalculateSimilarity_degenerate [where A = "make_solid 4 4 0" and B = "make_solid 4 4 1" and roi = ?r and cfg = default_settings] d e
  have 3: "CalculateSimilarity (Some (make_solid 4 4 0)) (Some (make_solid 4 4 1)) ?r default_settings = 1"
    by blast
  from 1 2 3 w e show ?thesis by blast
qed

section \<open>The duplicate test\<close>

text \<open>
  C5.  For two frames with bitmaps, \<^verbatim>\<open>IsDuplicateFrame\<close> compares over the region of
  \<open>cur\<close> when that has positive width and height, else over the region of \<open>prev\<close> when
  that has, else over the rectangle from (0,0) to the smaller width and the smaller
  height of the two bitmaps; it returns whether the similarity over that region reaches
  the threshold, together with the similarity.
\<close>

theorem IsDuplicateFrame_region:
  assumes "bmp prev = Some pb" and "bmp cur = Some cb"
  shows "IsDuplicateFrame prev cur cfg =
     (let region =
            (if 0 < roi_w cur \<and> 0 < roi_h cur then frame_region cur
             else if 0 < roi_w prev \<and> 0 < roi_h prev then frame_region prev
             else \<lparr> r_left = 0, r_top = 0,
                    r_right = min (getWidth pb) (getWidth cb),
                    r_bottom = min (getHeight pb) (getHeight cb) \<rparr>);
          score = CalculateSimilarity (Some pb) (Some cb) (Some region) cfg
      in (score \<ge> similarity_threshold cfg, score))"
  using assms by (auto simp: IsDuplicateFrame_def frame_region_def Let_def min_def)

theorem IsDuplicateFrame_region_witness:
  "bmp (FrameInfo_ctor 0 (Some (make_solid 2 2 0)) 100) = Some (make_solid 2 2 0)
   \<and> bmp ((FrameInfo_ctor 1 (Some (setPixel (make_solid 2 2 0) 1 1 5)) 120)
            \<lparr> roi_x := 1, roi_y := 1, roi_w := 1, roi_h := 1 \<rparr>)
       = Some (setPixel (make_solid 2 2 0) 1 1 5)
   \<and> IsDuplicateFrame (FrameInfo_ctor 0 (Some (make_solid 2 2 0)) 100)
        ((FrameInfo_ctor 1 (Some (setPixel (make_solid 2 2 0) 1 1 5)) 120)
            \<lparr> roi_x := 1, roi_y := 1, roi_w := 1, roi_h := 1 \<rparr>)
        default_settings = (False, 0)"
proof -
  let ?p = "FrameInfo_ctor 0 (Some (make_solid 2 2 0)) 100"
  let ?c = "(FrameInfo_ctor 1 (Some (setPixel (make_solid 2 2 0) 1 1 5)) 120)
            \<lparr> roi_x := 1, roi_y := 1, roi_w := 1, roi_h := 1 \<rparr>"
  have p: "bmp ?p = Some (make_solid 2 2 0)"
    by (simp add: FrameInfo_ctor_def)
  have c: "bmp ?c = Some (setPixel (make_solid 2 2 0) 1 1 5)"
    by (simp add: FrameInfo_ctor_def)
  have s: "CalculateSimilarity (Some (make_solid 2 2 0)) (Some (setPixel (make_solid 2 2 0) 1 1 5))
             (Some \<lparr>r_left = 1, r_top = 1, r_right = 2, r_bottom = 2\<rparr>) default_settings = 0"
    by (simp add: sim_eval)
  have "IsDuplicateFrame ?p ?c default_settings = (False, 0)"
    unfolding IsDuplicateFrame_region [OF p c]
    by (simp add: FrameInfo_ctor_def frame_region_def s) (simp add: default_settings_def)
  with p c show ?thesis by blast
qed

section \<open>Empty input\<close>

text \<open>
  C9.  An empty input should yield an empty output sequence, a removed count of zero and
  an empty list of removed indices.  \<^verbatim>\<open>RemoveDuplicateFrames\<close> returns 0 at its first
  statement, before \<^verbatim>\<open>FrameArray_Init\<close> and \<^verbatim>\<open>IndexArray_Init\<close> are reached: whatever the
  configuration, both containers come back as the caller passed them.  A frame array and
  an index array that hold an entry from an earlier use still hold it after the call on
  the empty input, whereas the call on a one-frame input resets the same two containers
  before it fills them.
\<close>

theorem RemoveDuplicateFrames_empty_untouched:
  "RemoveDuplicateFrames [] output0 cfg removed_indices0 = (0, output0, removed_indices0)
   \<and> RemoveDuplicateFrames []
         (Some \<lparr> frames = [FrameInfo_ctor 9 None 99], capacity = 1 \<rparr>)
         (Some default_settings)
         (Some \<lparr> indices = [7], idx_capacity = 1 \<rparr>) =
       (0, Some \<lparr> frames = [FrameInfo_ctor 9 None 99], capacity = 1 \<rparr>,
           Some \<lparr> indices = [7], idx_capacity = 1 \<rparr>)
   \<and> RemoveDuplicateFrames [FrameInfo_ctor 0 None 10]
         (Some \<lparr> frames = [FrameInfo_ctor 9 None 99], capacity = 1 \<rparr>)
         (Some default_settings)
         (Some \<lparr> indices = [7], idx_capacity = 1 \<rparr>) =
       (0, Some \<lparr> frames = [FrameInfo_ctor 0 None 10], capacity = 16 \<rparr>,
           Some \<lparr> indices = [], idx_capacity = 0 \<rparr>)"
  by (simp add: RemoveDuplicateFrames_def FrameArray_Init_def IndexArray_Init_def
        FrameArray_Add_def adjust_delay_def default_settings_def FrameInfo_ctor_def Let_def)


section \<open>The collapsing pass on the six-frame example\<close>

lemma IsDuplicateFrame_ctor:
  "IsDuplicateFrame (FrameInfo_ctor i (Some X) d) (FrameInfo_ctor j (Some Y) e) cfg =
     (similarity_threshold cfg \<le> frame_similarity X Y cfg, frame_similarity X Y cfg)"
  by (simp add: frame_similarity_def IsDuplicateFrame_def FrameInfo_ctor_def Let_def)

lemmas collapse_eval = remove_duplicates_def RemoveDuplicateFrames_def FrameArray_Init_def
  IndexArray_Init_def FrameArray_Add_def IndexArray_Add_def adjust_delay_def Let_def

text \<open>
  C1.  The input is A(100), A(110), B(120), B(130), B(140), C(150), built with the
  \<^verbatim>\<open>FrameInfo\<close> constructor as \<^verbatim>\<open>Test_RemoveDuplicates_KeepFirst_SumDelay\<close> does.  When
  frames showing the same bitmap score at or above the threshold and frames showing A
  and B, or B and C, score below it, keep-first with summed delays yields A(210),
  B(390), C(150), three removed frames and the removed indices 1, 3, 4.
\<close>

theorem remove_duplicates_example:
  assumes "keep_mode cfg = kDuplicateKeepFirst" and "delay_adjust_mode cfg = kSum"
    and "similarity_threshold cfg \<le> frame_similarity A A cfg"
    and "similarity_threshold cfg \<le> frame_similarity B B cfg"
    and "frame_similarity A B cfg < similarity_threshold cfg"
    and "frame_similarity B C cfg < similarity_threshold cfg"
  shows "remove_duplicates
           [FrameInfo_ctor 0 (Some A) 100, FrameInfo_ctor 1 (Some A) 110,
            FrameInfo_ctor 2 (Some B) 120, FrameInfo_ctor 3 (Some B) 130,
            FrameInfo_ctor 4 (Some B) 140, FrameInfo_ctor 5 (Some C) 150] cfg =
         ([FrameInfo_ctor 0 (Some A) 210, FrameInfo_ctor 2 (Some B) 390,
           FrameInfo_ctor 5 (Some C) 150], 3, [1, 3, 4])"
  using assms
  by (simp add: collapse_eval IsDuplicateFrame_ctor) (simp add: FrameInfo_ctor_def)

theorem remove_duplicates_example_witness:
  "keep_mode default_settings = kDuplicateKeepFirst \<and> delay_adjust_mode default_settings = kSum
   \<and> similarity_threshold default_settings
        \<le> frame_similarity (make_solid 1 1 (LICE_RGBA 10 10 10 0)) (make_solid 1 1 (LICE_RGBA 10 10 10 0)) default_settings
   \<and> similarity_threshold default_settings
        \<le> frame_similarity (make_solid 1 1 (LICE_RGBA 20 20 20 0)) (make_solid 1 1 (LICE_RGBA 20 20 20 0)) default_settings
   \<and> frame_similarity (make_solid 1 1 (LICE_RGBA 10 10 10 0)) (make_solid 1 1 (LICE_RGBA 20 20 20 0)) default_settings
        < similarity_threshold default_settings
   \<and> frame_similarity (make_solid 1 1 (LICE_RGBA 20 20 20 0)) (make_solid 1 1 (LICE_RGBA 30 30 30 0)) default_settings
        < similarity_threshold default_settings
   \<and> remove_duplicates
           [FrameInfo_ctor 0 (Some (make_solid 1 1 (LICE_RGBA 10 10 10 0))) 100,
            FrameInfo_ctor 1 (Some (make_solid 1 1 (LICE_RGBA 10 10 10 0))) 110,
            FrameInfo_ctor 2 (Some (make_solid 1 1 (LICE_RGBA 20 20 20 0))) 120,
            FrameInfo_ctor 3 (Some (make_solid 1 1 (LICE_RGBA 20 20 20 0))) 130,
            FrameInfo_ctor 4 (Some (make_solid 1 1 (LICE_RGBA 20 20 20 0))) 140,
            FrameInfo_ctor 5 (Some (make_solid 1 1 (LICE_RGBA 30 30 30 0))) 150] default_settings =
         ([FrameInfo_ctor 0 (Some (make_solid 1 1 (LICE_RGBA 10 10 10 0))) 210,
           FrameInfo_ctor 2 (Some (make_solid 1 1 (LICE_RGBA 20 20 20 0))) 390,
           FrameInfo_ctor 5 (Some (make_solid 1 1 (LICE_RGBA 30 30 30 0))) 150], 3, [1, 3, 4])"
proof -
  let ?A = "make_solid 1 1 (LICE_RGBA 10 10 10 0)"
  let ?B = "make_solid 1 1 (LICE_RGBA 20 20 20 0)"
  let ?C = "make_solid 1 1 (LICE_RGBA 30 30 30 0)"
  have k: "keep_mode default_settings = kDuplicateKeepFirst"
    and d: "delay_adjust_mode default_settings = kSum"
    by (simp_all add: default_settings_def)
  have aa: "similarity_threshold default_settings \<le> frame_similarity ?A ?A default_settings"
    by (simp add: frame_similarity_def sim_eval)
  have bb: "similarity_threshold default_settings \<le> frame_similarity ?B ?B default_settings"
    by (simp add: frame_similarity_def sim_eval)
  have ab: "frame_similarity ?A ?B default_settings < similarity_threshold default_settings"
    by (simp add: frame_similarity_def sim_eval)
  have bc: "frame_similarity ?B ?C default_settings < similarity_threshold default_settings"
    by (simp add: frame_similarity_def sim_eval)
  from remove_duplicates_example [OF k d aa bb ab bc] k d aa bb ab bc
  show ?thesis by blast
qed


section \<open>Delays of collapsed runs\<close>

lemma frames_FrameArray_Add: "frames (FrameArray_Add arr f) = frames arr @ [f]"
  by (simp add: FrameArray_Add_def Let_def)

lemma indices_IndexArray_Add: "indices (IndexArray_Add arr i) = indices arr @ [i]"
  by (simp add: IndexArray_Add_def Let_def)

lemma kept_frame_snoc:
  "run \<noteq> [] \<Longrightarrow> kept_frame cfg (run @ [f]) =
     (if keep_mode cfg = kDuplicateKeepFirst then kept_frame cfg run else f)"
  by (simp add: kept_frame_def)

lemma kept_frame_single: "kept_frame cfg [f] = f"
  by (simp add: kept_frame_def)

lemma concat_runs_from: "concat (runs_from cfg rep run rest) = run @ rest"
  by (induction rest arbitrary: rep run) auto

lemma runs_from_nonempty: "run \<noteq> [] \<Longrightarrow> r \<in> set (runs_from cfg rep run rest) \<Longrightarrow> r \<noteq> []"
  by (induction rest arbitrary: rep run) (auto split: if_splits)


lemma collapse_loop_keep_first:
  assumes "fst (IsDuplicateFrame (pending st) cur cfg)" and "keep_mode cfg = kDuplicateKeepFirst"
  shows "collapse_loop cfg i (cur # rest) st =
     collapse_loop cfg (i + 1) rest
       (st\<lparr> group_count := group_count st + 1,
            group_delay_sum := group_delay_sum st + delay_ms cur,
            removed := removed st + 1,
            removed_indices := map_option (\<lambda>arr. IndexArray_Add arr i) (removed_indices st) \<rparr>)"
  using assms by (cases "IsDuplicateFrame (pending st) cur cfg") (simp add: Let_def)

lemma collapse_loop_keep_last:
  assumes "fst (IsDuplicateFrame (pending st) cur cfg)" and "keep_mode cfg \<noteq> kDuplicateKeepFirst"
  shows "collapse_loop cfg i (cur # rest) st =
     collapse_loop cfg (i + 1) rest
       (st\<lparr> group_count := group_count st + 1,
            group_delay_sum := group_delay_sum st + delay_ms cur,
            pending := cur,
            removed := removed st + 1,
            removed_indices := map_option (\<lambda>arr. IndexArray_Add arr (i - 1)) (removed_indices st) \<rparr>)"
  using assms by (cases "IsDuplicateFrame (pending st) cur cfg") (simp add: Let_def)

lemma collapse_loop_flush:
  assumes "\<not> fst (IsDuplicateFrame (pending st) cur cfg)"
  shows "collapse_loop cfg i (cur # rest) st =
     collapse_loop cfg (i + 1) rest
       (st\<lparr> output_arr :=
              map_option
                (\<lambda>arr. FrameArray_Add arr
                   (adjust_delay cfg (pending st) (group_count st) (group_delay_sum st)))
                (output_arr st),
            pending := cur, group_count := 1, group_delay_sum := delay_ms cur \<rparr>)"
  using assms by (cases "IsDuplicateFrame (pending st) cur cfg") (simp add: Let_def)

lemma collapse_loop_sum:
  assumes "delay_adjust_mode cfg = kSum"
    and "pending st = kept_frame cfg run" and "run \<noteq> []"
    and "group_delay_sum st = sum_list (map delay_ms run)"
    and "output_arr st = Some arr"
  shows "\<exists>arr'. output_arr (collapse_loop cfg i rest st) = Some arr' \<and>
           frames arr' @
             [adjust_delay cfg (pending (collapse_loop cfg i rest st))
                (group_count (collapse_loop cfg i rest st))
                (group_delay_sum (collapse_loop cfg i rest st))] =
           frames arr @ map (summed cfg) (runs_from cfg (pending st) run rest)"
  using assms
proof (induction rest arbitrary: st run i arr)
  case Nil
  then show ?case by (simp add: adjust_delay_def summed_def)
next
  case (Cons cur rest)
  show ?case
  proof (cases "fst (IsDuplicateFrame (pending st) cur cfg)")
    case True
    show ?thesis
    proof (cases "keep_mode cfg = kDuplicateKeepFirst")
      case kf: True
      show ?thesis
        unfolding collapse_loop_keep_first [OF True kf]
        using Cons.IH [where run = "run @ [cur]" and arr = arr] Cons.prems True kf
        by (simp add: kept_frame_snoc)
    next
      case kl: False
      show ?thesis
        unfolding collapse_loop_keep_last [OF True kl]
        using Cons.IH [where run = "run @ [cur]" and arr = arr] Cons.prems True kl
        by (simp add: kept_frame_snoc)
    qed
  next
    case False
    let ?f = "adjust_delay cfg (pending st) (group_count st) (group_delay_sum st)"
    have f: "?f = summed cfg run"
      using Cons.prems by (simp add: adjust_delay_def summed_def)
    show ?thesis
      unfolding collapse_loop_flush [OF False]
      using Cons.IH [where run = "[cur]" and arr = "FrameArray_Add arr ?f"] Cons.prems False f
      by (simp add: kept_frame_single frames_FrameArray_Add)
  qed
qed


lemma sum_list_word_of_sint:
  "(sum_list ws :: 32 word) = word_of_int (sum_list (map sint ws))"
  by (induction ws) simp_all

lemma sint_sum_list_exact:
  fixes ws :: "32 word list"
  assumes "- (2 ^ 31) \<le> sum_list (map sint ws)" and "sum_list (map sint ws) < 2 ^ 31"
  shows "sint (sum_list ws) = sum_list (map sint ws)"
proof -
  have "sint (sum_list ws) = signed_take_bit 31 (sum_list (map sint ws))"
    by (subst sum_list_word_of_sint) (simp add: signed_of_int)
  also have "\<dots> = sum_list (map sint ws)"
    using assms by (rule signed_take_bit_int_eq_self)
  finally show ?thesis .
qed

lemma remove_duplicates_sum:
  assumes "delay_adjust_mode cfg = kSum"
  shows "fst (remove_duplicates input cfg) = map (summed cfg) (runs cfg input)"
proof (cases input)
  case Nil
  then show ?thesis
    by (simp add: remove_duplicates_def RemoveDuplicateFrames_def runs_def FrameArray_Init_def)
next
  case (Cons first rest)
  let ?st0 = "\<lparr> pending = first, group_count = 1, group_delay_sum = delay_ms first,
                 removed = 0, output_arr = Some (FrameArray_Init (length input div 2)),
                 removed_indices = Some (IndexArray_Init (length input div 4)) \<rparr>"
  from collapse_loop_sum [OF assms, of ?st0 "[first]" "FrameArray_Init (length input div 2)" 1 rest]
  obtain arr' where a: "output_arr (collapse_loop cfg 1 rest ?st0) = Some arr'"
    and f: "frames arr' @
             [adjust_delay cfg (pending (collapse_loop cfg 1 rest ?st0))
                (group_count (collapse_loop cfg 1 rest ?st0))
                (group_delay_sum (collapse_loop cfg 1 rest ?st0))] =
           map (summed cfg) (runs_from cfg first [first] rest)"
    by (auto simp: kept_frame_single FrameArray_Init_def)
  show ?thesis
    using a f Cons
    by (simp add: remove_duplicates_def RemoveDuplicateFrames_def runs_def Let_def
          frames_FrameArray_Add split: prod.splits)
qed

text \<open>
  C4.  In sum mode, under either keep mode, the output is the list of the kept frames of
  the runs of the input, each carrying the sum of the delays of all frames of its run
  (the kept frame and every removed one); a run of one frame keeps its delay.  The runs
  partition the input in order and none is empty.  Delays are C \<^verbatim>\<open>int\<close>s: the sum is
  taken in 32-bit arithmetic, and it is the sum of the signed delays whenever that sum
  is an \<^verbatim>\<open>int\<close> value.
\<close>

theorem sum_mode_run_delays:
  assumes "delay_adjust_mode cfg = kSum"
  shows "fst (remove_duplicates input cfg) =
           map (\<lambda>r. (kept_frame cfg r)\<lparr> delay_ms := sum_list (map delay_ms r) \<rparr>) (runs cfg input)
         \<and> map delay_ms (fst (remove_duplicates input cfg)) =
           map (\<lambda>r. sum_list (map delay_ms r)) (runs cfg input)
         \<and> concat (runs cfg input) = input
         \<and> [] \<notin> set (runs cfg input)
         \<and> (\<forall>k < length (runs cfg input).
              - (2 ^ 31) \<le> (\<Sum>f\<leftarrow>runs cfg input ! k. sint (delay_ms f))
              \<and> (\<Sum>f\<leftarrow>runs cfg input ! k. sint (delay_ms f)) < 2 ^ 31
              \<longrightarrow> sint (delay_ms (fst (remove_duplicates input cfg) ! k)) =
                    (\<Sum>f\<leftarrow>runs cfg input ! k. sint (delay_ms f)))"
proof -
  have out: "fst (remove_duplicates input cfg) = map (summed cfg) (runs cfg input)"
    using assms by (rule remove_duplicates_sum)
  have 1: "fst (remove_duplicates input cfg) =
           map (\<lambda>r. (kept_frame cfg r)\<lparr> delay_ms := sum_list (map delay_ms r) \<rparr>) (runs cfg input)"
    unfolding out by (simp add: summed_def)
  have 2: "map delay_ms (fst (remove_duplicates input cfg)) =
           map (\<lambda>r. sum_list (map delay_ms r)) (runs cfg input)"
    unfolding out by (simp add: summed_def)
  have 3: "concat (runs cfg input) = input"
    by (cases input) (simp_all add: runs_def concat_runs_from)
  have 4: "[] \<notin> set (runs cfg input)"
  proof (cases input)
    case Nil
    then show ?thesis by (simp add: runs_def)
  next
    case (Cons f fs)
    then show ?thesis
      using runs_from_nonempty [of "[f]" "[]" cfg f fs] by (auto simp: runs_def)
  qed
  have 5: "sint (delay_ms (fst (remove_duplicates input cfg) ! k)) =
             (\<Sum>f\<leftarrow>runs cfg input ! k. sint (delay_ms f))"
    if "k < length (runs cfg input)"
      and "- (2 ^ 31) \<le> (\<Sum>f\<leftarrow>runs cfg input ! k. sint (delay_ms f))"
      and "(\<Sum>f\<leftarrow>runs cfg input ! k. sint (delay_ms f)) < 2 ^ 31" for k
  proof -
    have "delay_ms (fst (remove_duplicates input cfg) ! k) =
            sum_list (map delay_ms (runs cfg input ! k))"
      unfolding out using that(1) by (simp add: summed_def)
    then show ?thesis
      using sint_sum_list_exact [of "map delay_ms (runs cfg input ! k)"] that(2,3)
      by (simp add: comp_def)
  qed
  from 1 2 3 4 5 show ?thesis by blast
qed


theorem sum_mode_run_delays_witness:
  "delay_adjust_mode default_settings = kSum
   \<and> runs default_settings
        [FrameInfo_ctor 0 (Some (make_solid 1 1 1)) 100, FrameInfo_ctor 1 (Some (make_solid 1 1 1)) 110,
         FrameInfo_ctor 2 (Some (make_solid 1 1 2)) 120] =
       [[FrameInfo_ctor 0 (Some (make_solid 1 1 1)) 100, FrameInfo_ctor 1 (Some (make_solid 1 1 1)) 110],
        [FrameInfo_ctor 2 (Some (make_solid 1 1 2)) 120]]
   \<and> map delay_ms (fst (remove_duplicates
        [FrameInfo_ctor 0 (Some (make_solid 1 1 1)) 100, FrameInfo_ctor 1 (Some (make_solid 1 1 1)) 110,
         FrameInfo_ctor 2 (Some (make_solid 1 1 2)) 120] default_settings)) = [210, 120]
   \<and> sint (delay_ms (fst (remove_duplicates
        [FrameInfo_ctor 0 (Some (make_solid 1 1 1)) 100, FrameInfo_ctor 1 (Some (make_solid 1 1 1)) 110,
         FrameInfo_ctor 2 (Some (make_solid 1 1 2)) 120] default_settings) ! 0)) = 210"
proof -
  let ?A = "make_solid 1 1 1" and ?B = "make_solid 1 1 2"
  let ?in = "[FrameInfo_ctor 0 (Some ?A) 100, FrameInfo_ctor 1 (Some ?A) 110,
              FrameInfo_ctor 2 (Some ?B) 120]"
  have d: "delay_adjust_mode default_settings = kSum"
    by (simp add: default_settings_def)
  have aa: "similarity_threshold default_settings \<le> frame_similarity ?A ?A default_settings"
    by (simp add: frame_similarity_def sim_eval)
  have ab: "\<not> similarity_threshold default_settings \<le> frame_similarity ?A ?B default_settings"
    by (simp add: frame_similarity_def sim_eval)
  have r: "runs default_settings ?in =
      [[FrameInfo_ctor 0 (Some ?A) 100, FrameInfo_ctor 1 (Some ?A) 110],
       [FrameInfo_ctor 2 (Some ?B) 120]]"
    by (simp add: runs_def IsDuplicateFrame_ctor aa ab)
  note t = sum_mode_run_delays [OF d, of ?in]
  have m: "map delay_ms (fst (remove_duplicates ?in default_settings)) = [210, 120]"
    using t unfolding r by (simp add: FrameInfo_ctor_def)
  have "sint (delay_ms (fst (remove_duplicates ?in default_settings) ! 0)) =
          (\<Sum>f\<leftarrow>runs default_settings ?in ! 0. sint (delay_ms f))"
    using t unfolding r by (simp add: FrameInfo_ctor_def)
  then have s: "sint (delay_ms (fst (remove_duplicates ?in default_settings) ! 0)) = 210"
    unfolding r by (simp add: FrameInfo_ctor_def)
  from d r m s show ?thesis by blast
qed


section \<open>Running the pass on its own output\<close>

lemma IsDuplicateFrame_adjust_left:
  "IsDuplicateFrame (adjust_delay c p n s) q cfg = IsDuplicateFrame p q cfg"
  by (auto simp add: IsDuplicateFrame_def adjust_delay_def split: option.splits)

lemma IsDuplicateFrame_adjust_right:
  "IsDuplicateFrame p (adjust_delay c q n s) cfg = IsDuplicateFrame p q cfg"
  by (auto simp add: IsDuplicateFrame_def adjust_delay_def split: option.splits)

lemma adjacent_distinct_snoc2:
  "adjacent_distinct cfg (xs @ [a, b]) =
     (adjacent_distinct cfg (xs @ [a]) \<and> \<not> fst (IsDuplicateFrame a b cfg))"
  by (induction cfg xs rule: adjacent_distinct.induct) auto

lemma adjacent_distinct_snoc_adjust:
  "adjacent_distinct cfg (xs @ [adjust_delay c a n s]) = adjacent_distinct cfg (xs @ [a])"
  by (induction cfg xs rule: adjacent_distinct.induct)
     (auto simp: IsDuplicateFrame_adjust_right)

lemma adjust_delay_single: "adjust_delay cfg p 1 (delay_ms p) = p"
  by (simp add: adjust_delay_def c_div_def)

lemma collapse_loop_keep_first_distinct:
  assumes "keep_mode cfg = kDuplicateKeepFirst"
    and "output_arr st = Some arr"
    and "adjacent_distinct cfg (frames arr @ [pending st])"
  shows "\<exists>arr'. output_arr (collapse_loop cfg i rest st) = Some arr' \<and>
           adjacent_distinct cfg
             (frames arr' @
               [adjust_delay cfg (pending (collapse_loop cfg i rest st))
                  (group_count (collapse_loop cfg i rest st))
                  (group_delay_sum (collapse_loop cfg i rest st))])"
  using assms
proof (induction rest arbitrary: st i arr)
  case Nil
  then show ?case by (simp add: adjacent_distinct_snoc_adjust)
next
  case (Cons cur rest)
  show ?case
  proof (cases "fst (IsDuplicateFrame (pending st) cur cfg)")
    case True
    show ?thesis
      unfolding collapse_loop_keep_first [OF True Cons.prems(1)]
      using Cons.IH [where arr = arr] Cons.prems by simp
  next
    case False
    let ?f = "adjust_delay cfg (pending st) (group_count st) (group_delay_sum st)"
    have "adjacent_distinct cfg (frames (FrameArray_Add arr ?f) @ [cur])"
      using Cons.prems(3) False
      by (simp add: frames_FrameArray_Add adjacent_distinct_snoc2
            adjacent_distinct_snoc_adjust IsDuplicateFrame_adjust_left)
    then show ?thesis
      unfolding collapse_loop_flush [OF False]
      using Cons.IH [where arr = "FrameArray_Add arr ?f" and i = "i + 1" and st = "st\<lparr> output_arr :=
              map_option (\<lambda>arr. FrameArray_Add arr ?f) (output_arr st),
            pending := cur, group_count := 1, group_delay_sum := delay_ms cur \<rparr>"] Cons.prems(1,2) by simp
  qed
qed

lemma collapse_loop_distinct_id:
  assumes "adjacent_distinct cfg (pending st # rest)"
    and "group_count st = 1" and "group_delay_sum st = delay_ms (pending st)"
    and "output_arr st = Some arr"
  shows "removed (collapse_loop cfg i rest st) = removed st
       \<and> removed_indices (collapse_loop cfg i rest st) = removed_indices st
       \<and> (\<exists>arr'. output_arr (collapse_loop cfg i rest st) = Some arr' \<and>
            frames arr' @
              [adjust_delay cfg (pending (collapse_loop cfg i rest st))
                 (group_count (collapse_loop cfg i rest st))
                 (group_delay_sum (collapse_loop cfg i rest st))] =
            frames arr @ pending st # rest)"
  using assms
proof (induction rest arbitrary: st i arr)
  case Nil
  then show ?case by (simp add: adjust_delay_single)
next
  case (Cons cur rest)
  have nd: "\<not> fst (IsDuplicateFrame (pending st) cur cfg)"
    using Cons.prems(1) by simp
  let ?st2 = "st\<lparr> output_arr :=
              map_option
                (\<lambda>arr. FrameArray_Add arr
                   (adjust_delay cfg (pending st) (group_count st) (group_delay_sum st)))
                (output_arr st),
            pending := cur, group_count := 1, group_delay_sum := delay_ms cur \<rparr>"
  show ?case
    unfolding collapse_loop_flush [OF nd]
    using Cons.IH [where st = ?st2 and arr = "FrameArray_Add arr (pending st)" and i = "i + 1"]
      Cons.prems
    by (simp add: adjust_delay_single frames_FrameArray_Add)
qed

lemma remove_duplicates_distinct_id:
  assumes "adjacent_distinct cfg input"
  shows "remove_duplicates input cfg = (input, 0, [])"
proof (cases input)
  case Nil
  then show ?thesis
    by (simp add: remove_duplicates_def RemoveDuplicateFrames_def FrameArray_Init_def
          IndexArray_Init_def)
next
  case (Cons first rest)
  let ?st0 = "\<lparr> pending = first, group_count = 1, group_delay_sum = delay_ms first,
                 removed = 0, output_arr = Some (FrameArray_Init (length input div 2)),
                 removed_indices = Some (IndexArray_Init (length input div 4)) \<rparr>"
  from collapse_loop_distinct_id [of cfg ?st0 rest "FrameArray_Init (length input div 2)" 1]
    assms Cons
  obtain arr' where "removed (collapse_loop cfg 1 rest ?st0) = 0"
    and "removed_indices (collapse_loop cfg 1 rest ?st0) = Some (IndexArray_Init (length input div 4))"
    and "output_arr (collapse_loop cfg 1 rest ?st0) = Some arr'"
    and "frames arr' @
              [adjust_delay cfg (pending (collapse_loop cfg 1 rest ?st0))
                 (group_count (collapse_loop cfg 1 rest ?st0))
                 (group_delay_sum (collapse_loop cfg 1 rest ?st0))] = first # rest"
    by (auto simp: FrameArray_Init_def)
  then show ?thesis
    using Cons
    by (simp add: remove_duplicates_def RemoveDuplicateFrames_def Let_def frames_FrameArray_Add
          IndexArray_Init_def split: prod.splits)
qed

lemma remove_duplicates_keep_first_distinct:
  assumes "keep_mode cfg = kDuplicateKeepFirst"
  shows "adjacent_distinct cfg (fst (remove_duplicates input cfg))"
proof (cases input)
  case Nil
  then show ?thesis
    by (simp add: remove_duplicates_def RemoveDuplicateFrames_def FrameArray_Init_def)
next
  case (Cons first rest)
  let ?st0 = "\<lparr> pending = first, group_count = 1, group_delay_sum = delay_ms first,
                 removed = 0, output_arr = Some (FrameArray_Init (length input div 2)),
                 removed_indices = Some (IndexArray_Init (length input div 4)) \<rparr>"
  from collapse_loop_keep_first_distinct
         [OF assms, of ?st0 "FrameArray_Init (length input div 2)" 1 rest]
  obtain arr' where "output_arr (collapse_loop cfg 1 rest ?st0) = Some arr'"
    and "adjacent_distinct cfg
             (frames arr' @
               [adjust_delay cfg (pending (collapse_loop cfg 1 rest ?st0))
                  (group_count (collapse_loop cfg 1 rest ?st0))
                  (group_delay_sum (collapse_loop cfg 1 rest ?st0))])"
    by (auto simp: FrameArray_Init_def)
  then show ?thesis
    using Cons
    by (simp add: remove_duplicates_def RemoveDuplicateFrames_def Let_def frames_FrameArray_Add
          split: prod.splits)
qed

text \<open>
  C6, as amended.  Under keep-first, with any delay adjustment, a second run of the pass
  on the output of the first removes no frame and returns that output unchanged: every
  kept frame was compared with the first frame of the next run and found different, and
  the second run repeats exactly these comparisons.
\<close>

theorem keep_first_idempotent:
  assumes "keep_mode cfg = kDuplicateKeepFirst"
  shows "remove_duplicates (fst (remove_duplicates input cfg)) cfg =
           (fst (remove_duplicates input cfg), 0, [])"
  using remove_duplicates_keep_first_distinct [OF assms]
  by (rule remove_duplicates_distinct_id)


theorem keep_first_idempotent_witness:
  "keep_mode default_settings = kDuplicateKeepFirst
   \<and> remove_duplicates
        [FrameInfo_ctor 0 (Some (make_solid 1 1 1)) 100, FrameInfo_ctor 1 (Some (make_solid 1 1 1)) 110,
         FrameInfo_ctor 2 (Some (make_solid 1 1 2)) 120] default_settings =
       ([FrameInfo_ctor 0 (Some (make_solid 1 1 1)) 210, FrameInfo_ctor 2 (Some (make_solid 1 1 2)) 120],
        1, [1])
   \<and> remove_duplicates
        [FrameInfo_ctor 0 (Some (make_solid 1 1 1)) 210, FrameInfo_ctor 2 (Some (make_solid 1 1 2)) 120]
        default_settings =
       ([FrameInfo_ctor 0 (Some (make_solid 1 1 1)) 210, FrameInfo_ctor 2 (Some (make_solid 1 1 2)) 120],
        0, [])"
proof -
  let ?A = "make_solid 1 1 1" and ?B = "make_solid 1 1 2"
  let ?in = "[FrameInfo_ctor 0 (Some ?A) 100, FrameInfo_ctor 1 (Some ?A) 110,
              FrameInfo_ctor 2 (Some ?B) 120]"
  have k: "keep_mode default_settings = kDuplicateKeepFirst"
    and d: "delay_adjust_mode default_settings = kSum"
    by (simp_all add: default_settings_def)
  have aa: "similarity_threshold default_settings \<le> frame_similarity ?A ?A default_settings"
    by (simp add: frame_similarity_def sim_eval)
  have ab: "\<not> similarity_threshold default_settings \<le> frame_similarity ?A ?B default_settings"
    by (simp add: frame_similarity_def sim_eval)
  have 1: "remove_duplicates ?in default_settings =
      ([FrameInfo_ctor 0 (Some ?A) 210, FrameInfo_ctor 2 (Some ?B) 120], 1, [1])"
    using k d aa ab
    by (simp add: collapse_eval IsDuplicateFrame_ctor) (simp add: FrameInfo_ctor_def)
  from keep_first_idempotent [OF k, of ?in] k 1 show ?thesis by simp
qed

text \<open>
  C6 fails under keep-last, where the representative of a run moves on to the latest
  duplicate.  With a tolerance of 5 and three one-pixel frames whose blue values are 0, 10
  and 5, the second frame differs from the first and the third is a duplicate of the
  second, so the first run keeps the frames 0 and 2; these two are duplicates of each
  other, and the second run removes one of them.
\<close>

theorem keep_last_not_idempotent:
  "remove_duplicates
     [FrameInfo_ctor 0 (Some (make_solid 1 1 0)) 100, FrameInfo_ctor 1 (Some (make_solid 1 1 10)) 110,
      FrameInfo_ctor 2 (Some (make_solid 1 1 5)) 120]
     (default_settings\<lparr> per_channel_tolerance := 5, keep_mode := kDuplicateKeepLast \<rparr>) =
     ([FrameInfo_ctor 0 (Some (make_solid 1 1 0)) 100, FrameInfo_ctor 2 (Some (make_solid 1 1 5)) 230],
      1, [1])
   \<and> remove_duplicates
     [FrameInfo_ctor 0 (Some (make_solid 1 1 0)) 100, FrameInfo_ctor 2 (Some (make_solid 1 1 5)) 230]
     (default_settings\<lparr> per_channel_tolerance := 5, keep_mode := kDuplicateKeepLast \<rparr>) =
     ([FrameInfo_ctor 2 (Some (make_solid 1 1 5)) 330], 1, [0])"
proof -
  let ?c = "default_settings\<lparr> per_channel_tolerance := 5, keep_mode := kDuplicateKeepLast \<rparr>"
  let ?P = "make_solid 1 1 0" and ?Q = "make_solid 1 1 10" and ?R = "make_solid 1 1 5"
  have k: "keep_mode ?c = kDuplicateKeepLast" and d: "delay_adjust_mode ?c = kSum"
    by (simp_all add: default_settings_def)
  have pq: "\<not> similarity_threshold ?c \<le> frame_similarity ?P ?Q ?c"
    by (simp add: frame_similarity_def sim_eval channel_distance_def LICE_GETR_def LICE_GETG_def
          LICE_GETB_def LICE_GETA_def)
  have qr: "similarity_threshold ?c \<le> frame_similarity ?Q ?R ?c"
    by (simp add: frame_similarity_def sim_eval channel_distance_def LICE_GETR_def LICE_GETG_def
          LICE_GETB_def LICE_GETA_def)
  have pr: "similarity_threshold ?c \<le> frame_similarity ?P ?R ?c"
    by (simp add: frame_similarity_def sim_eval channel_distance_def LICE_GETR_def LICE_GETG_def
          LICE_GETB_def LICE_GETA_def)
  show ?thesis
    using k d pq qr pr
    by (simp add: collapse_eval IsDuplicateFrame_ctor) (simp add: FrameInfo_ctor_def)
qed


section \<open>The scan as a pass over the list of samples\<close>

lemma sX_pos: "0 < sX cfg"
  by (simp add: sX_def)

lemma sY_pos: "0 < sY cfg"
  by (simp add: sY_def)

lemma scan_cols_samples:
  "scan_cols cfg row1 row2 right tot xx st =
     scan_list cfg tot
       (map (\<lambda>x. pixels_equal (row1 x) (row2 x) cfg) (sample_points (sX cfg) xx right)) st"
proof (induction cfg row1 row2 right tot xx st rule: scan_cols.induct)
  case (1 cfg row1 row2 right tot xx equal_count processed)
  show ?case
  proof (cases "xx < right")
    case True
    then show ?thesis
      using 1 [OF True refl refl refl refl refl refl refl]
      by (subst scan_cols.simps, subst sample_points.simps) (simp add: Let_def sX_pos)
  next
    case False
    then show ?thesis
      by (subst scan_cols.simps, subst sample_points.simps) simp
  qed
qed

lemma scan_list_append:
  "scan_list cfg tot (es1 @ es2) st =
     (case scan_list cfg tot es1 st of
        (st', True) \<Rightarrow> (st', True)
      | (st', False) \<Rightarrow> scan_list cfg tot es2 st')"
  by (induction cfg tot es1 st rule: scan_list.induct) (auto simp: Let_def)

lemma scan_rows_samples:
  "scan_rows cfg p1 span1 p2 span2 r tot yy st =
     scan_list cfg tot
       (concat (map (row_samples cfg p1 span1 p2 span2 r) (sample_points (sY cfg) yy (r_bottom r)))) st"
proof (induction cfg p1 span1 p2 span2 r tot yy st rule: scan_rows.induct)
  case (1 cfg p1 span1 p2 span2 r tot yy st)
  show ?case
  proof (cases "yy < r_bottom r")
    case True
    let ?row = "row_samples cfg p1 span1 p2 span2 r yy"
    let ?rest = "concat (map (row_samples cfg p1 span1 p2 span2 r)
                   (sample_points (sY cfg) (yy + sY cfg) (r_bottom r)))"
    have cols: "scan_cols cfg (\<lambda>xx. p1 (yy * span1 + xx)) (\<lambda>xx. p2 (yy * span2 + xx))
                  (r_right r) tot (r_left r) st = scan_list cfg tot ?row st"
      by (simp add: scan_cols_samples row_samples_def)
    obtain st' fl where res: "scan_list cfg tot ?row st = (st', fl)"
      by (cases "scan_list cfg tot ?row st")
    have pts: "sample_points (sY cfg) yy (r_bottom r) =
                 yy # sample_points (sY cfg) (yy + sY cfg) (r_bottom r)"
      using True by (subst sample_points.simps) (simp add: sY_pos)
    have rhs: "scan_list cfg tot
       (concat (map (row_samples cfg p1 span1 p2 span2 r) (sample_points (sY cfg) yy (r_bottom r)))) st
       = (if fl then (st', True) else scan_list cfg tot ?rest st')"
      unfolding pts by (simp add: scan_list_append res)
    have lhs: "scan_rows cfg p1 span1 p2 span2 r tot yy st =
       (if fl then (st', True) else scan_rows cfg p1 span1 p2 span2 r tot (yy + sY cfg) st')"
      using True by (subst scan_rows.simps) (simp add: Let_def cols res)
    show ?thesis
    proof (cases fl)
      case True
      then show ?thesis by (simp add: lhs rhs)
    next
      case False
      have "scan_rows cfg p1 span1 p2 span2 r tot (yy + sY cfg) st' = scan_list cfg tot ?rest st'"
        using 1 [OF True refl refl, of st' fl] False by (simp add: cols res)
      then show ?thesis using False by (simp add: lhs rhs)
    qed
  next
    case False
    then show ?thesis
      by (subst scan_rows.simps, subst sample_points.simps) simp
  qed
qed

lemma c_div_nonneg: "0 \<le> a \<Longrightarrow> 0 < b \<Longrightarrow> c_div a b = a div b"
  by (simp add: c_div_def)

lemma generic_scan_samples:
  "generic_scan a b r cfg =
     (let tot = c_div (r_right r - r_left r + (sX cfg - 1)) (sX cfg)
                * c_div (r_bottom r - r_top r + (sY cfg - 1)) (sY cfg)
      in if tot \<le> 0 then 1
         else (case scan_list cfg tot (samples cfg a b r) (0, 0) of
                 ((equal_count, processed), stopped) \<Rightarrow>
                   if processed \<le> 0 then 1
                   else (let sim = real_of_int equal_count / real_of_int tot;
                             sim = (if sim < 0 then 0 else sim);
                             sim = (if sim > 1 then 1 else sim)
                         in sim)))"
  by (simp add: generic_scan_def samples_def scan_rows_samples Let_def split: prod.splits)

lemma pixels_equal_cong:
  "per_channel_tolerance c' = per_channel_tolerance c \<Longrightarrow> channel_mask c' = channel_mask c
     \<Longrightarrow> pixels_equal p q c' = pixels_equal p q c"
  by (simp add: pixels_equal_def)

lemma samples_cong:
  assumes "per_channel_tolerance c' = per_channel_tolerance c" and "channel_mask c' = channel_mask c"
    and "sX c' = sX c" and "sY c' = sY c"
  shows "samples c' a b r = samples c a b r"
proof -
  have "row_samples c' p1 span1 p2 span2 r = row_samples c p1 span1 p2 span2 r"
    for p1 span1 p2 span2
    by (rule ext) (simp add: row_samples_def pixels_equal_cong [OF assms(1,2)] assms(3))
  then show ?thesis
    by (simp add: samples_def assms(4))
qed

lemma scan_list_cong:
  assumes "enable_early_out c' = enable_early_out c"
    and "similarity_threshold c' = similarity_threshold c"
  shows "scan_list c' tot es st = scan_list c tot es st"
proof (induction es arbitrary: st)
  case Nil
  show ?case by simp
next
  case (Cons e es)
  show ?case
    by (cases st) (simp add: Let_def assms Cons.IH)
qed

lemma generic_scan_cong:
  assumes "per_channel_tolerance c' = per_channel_tolerance c" and "channel_mask c' = channel_mask c"
    and "sX c' = sX c" and "sY c' = sY c"
    and "enable_early_out c' = enable_early_out c"
    and "similarity_threshold c' = similarity_threshold c"
  shows "generic_scan a b r c' = generic_scan a b r c"
  unfolding generic_scan_samples samples_cong [OF assms(1-4)] scan_list_cong [OF assms(5,6)]
    assms(3,4)
  by (rule refl)

lemma length_sample_points:
  "0 < s \<Longrightarrow> lo < hi \<Longrightarrow> int (length (sample_points s lo hi)) = (hi - lo - 1) div s + 1"
proof (induction s lo hi rule: sample_points.induct)
  case (1 s lo hi)
  have unf: "sample_points s lo hi = lo # sample_points s (lo + s) hi"
    using "1.prems" by (subst sample_points.simps) simp
  show ?case
  proof (cases "lo + s < hi")
    case True
    have "int (length (sample_points s (lo + s) hi)) = (hi - (lo + s) - 1) div s + 1"
      using "1.IH" "1.prems" True by simp
    moreover have "(hi - lo - 1) div s = (hi - (lo + s) - 1) div s + 1"
      using "1.prems" div_add_self2 [of s "hi - (lo + s) - 1"] by (simp add: algebra_simps)
    ultimately show ?thesis by (simp add: unf)
  next
    case False
    then have e: "sample_points s (lo + s) hi = []"
      by (subst sample_points.simps) simp
    have "(hi - lo - 1) div s = 0"
      using "1.prems" False by simp
    then show ?thesis by (simp add: unf e)
  qed
qed

lemma sample_count:
  assumes "0 < s" and "lo < hi"
  shows "int (length (sample_points s lo hi)) = c_div (hi - lo + (s - 1)) s"
proof -
  have a: "c_div (hi - lo + (s - 1)) s = (hi - lo + (s - 1)) div s"
    using assms by (simp add: c_div_nonneg)
  have b: "(hi - lo + (s - 1)) div s = (hi - lo - 1) div s + 1"
    using assms div_add_self2 [of s "hi - lo - 1"] by (simp add: algebra_simps)
  show ?thesis
    by (simp add: a b length_sample_points [OF assms])
qed

lemma length_samples:
  assumes "r_left r < r_right r" and "r_top r < r_bottom r"
  shows "int (length (samples cfg a b r)) =
           c_div (r_right r - r_left r + (sX cfg - 1)) (sX cfg)
           * c_div (r_bottom r - r_top r + (sY cfg - 1)) (sY cfg)"
proof -
  obtain p1 span1 p2 span2 where o: "scan_origin a = (p1, span1)" "scan_origin b = (p2, span2)"
    by (cases "scan_origin a", cases "scan_origin b") auto
  have "length (samples cfg a b r) =
          length (sample_points (sY cfg) (r_top r) (r_bottom r))
          * length (sample_points (sX cfg) (r_left r) (r_right r))"
    by (simp add: samples_def o length_concat comp_def row_samples_def sum_list_triv)
  then show ?thesis
    using sample_count [OF sX_pos assms(1), of cfg] sample_count [OF sY_pos assms(2), of cfg]
    by (simp add: mult.commute)
qed

lemma scan_list_full:
  "\<not> enable_early_out cfg \<Longrightarrow>
     scan_list cfg tot es (eq, proc) =
       ((eq + int (length (filter id es)), proc + int (length es)), False)"
  by (induction es arbitrary: eq proc) (simp_all add: Let_def)

lemma scan_list_early:
  assumes "scan_list cfg tot es (eq, proc) = ((eq', proc'), fl)"
  shows "eq \<le> eq' \<and> eq' \<le> eq + int (length (filter id es))
       \<and> proc \<le> proc'
       \<and> (eq + int (length (filter id es))) - eq' \<le> (proc + int (length es)) - proc'
       \<and> (es \<noteq> [] \<longrightarrow> proc < proc')
       \<and> (\<not> fl \<longrightarrow> eq' = eq + int (length (filter id es)) \<and> proc' = proc + int (length es))
       \<and> (fl \<longrightarrow> real_of_int (eq' + (tot - proc')) / real_of_int tot < similarity_threshold cfg)"
  using assms
proof (induction es arbitrary: eq proc)
  case Nil
  then show ?case by simp
next
  case (Cons e es)
  let ?eq1 = "if e then eq + 1 else eq"
  define stop where "stop \<longleftrightarrow> enable_early_out cfg
            \<and> real_of_int (?eq1 + (tot - (proc + 1))) / real_of_int tot < similarity_threshold cfg"
  have step: "scan_list cfg tot (e # es) (eq, proc) =
      (if stop then ((?eq1, proc + 1), True) else scan_list cfg tot es (?eq1, proc + 1))"
    unfolding stop_def by (simp only: scan_list.simps Let_def)
  show ?case
  proof (cases stop)
    case True
    with Cons.prems step have "eq' = ?eq1" "proc' = proc + 1" "fl"
      by simp_all
    with True show ?thesis by (auto simp: stop_def)
  next
    case False
    with Cons.prems step have "scan_list cfg tot es (?eq1, proc + 1) = ((eq', proc'), fl)"
      by simp
    from Cons.IH [OF this] show ?thesis by auto
  qed
qed


lemma clamp_ratio:
  assumes "0 \<le> e" and "e \<le> t" and "0 < t"
  shows "(let sim = real_of_int e / real_of_int t;
              sim = (if sim < 0 then 0 else sim);
              sim = (if sim > 1 then 1 else sim)
          in sim) = real_of_int e / real_of_int t"
proof -
  have "0 \<le> real_of_int e / real_of_int t"
    using assms by simp
  moreover have "real_of_int e / real_of_int t \<le> 1"
    using assms by simp
  ultimately show ?thesis
    by (simp add: Let_def)
qed

lemma sX_early_out: "sX (cfg\<lparr> enable_early_out := v \<rparr>) = sX cfg"
  by (simp add: sX_def)

lemma sY_early_out: "sY (cfg\<lparr> enable_early_out := v \<rparr>) = sY cfg"
  by (simp add: sY_def)

lemma generic_scan_early_out:
  assumes "r_left r < r_right r" and "r_top r < r_bottom r"
  shows "generic_scan A B r (cfg\<lparr> enable_early_out := True \<rparr>)
           \<le> generic_scan A B r (cfg\<lparr> enable_early_out := False \<rparr>)
       \<and> (generic_scan A B r (cfg\<lparr> enable_early_out := True \<rparr>)
             = generic_scan A B r (cfg\<lparr> enable_early_out := False \<rparr>)
          \<or> generic_scan A B r (cfg\<lparr> enable_early_out := False \<rparr>) < similarity_threshold cfg)"
proof -
  let ?cE = "cfg\<lparr> enable_early_out := True \<rparr>" and ?cF = "cfg\<lparr> enable_early_out := False \<rparr>"
  define tot where "tot = c_div (r_right r - r_left r + (sX cfg - 1)) (sX cfg)
                          * c_div (r_bottom r - r_top r + (sY cfg - 1)) (sY cfg)"
  define es where "es = samples cfg A B r"
  define cnt where "cnt = int (length (filter id es))"
  have sE: "samples ?cE A B r = es" and sF: "samples ?cF A B r = es"
    unfolding es_def by (rule samples_cong; simp add: sX_def sY_def)+
  have len: "int (length es) = tot"
    unfolding es_def tot_def using assms by (rule length_samples)
  have cnt_le: "cnt \<le> tot" and cnt_ge: "0 \<le> cnt"
    unfolding cnt_def len [symmetric] by simp_all
  have full: "scan_list ?cF tot es (0, 0) = ((cnt, tot), False)"
    using scan_list_full [of ?cF tot es 0 0] by (simp add: cnt_def len)
  obtain eq' proc' fl where early: "scan_list ?cE tot es (0, 0) = ((eq', proc'), fl)"
    by (cases "scan_list ?cE tot es (0, 0)") auto
  note e = scan_list_early [OF early]
  have gs: "generic_scan A B r (cfg\<lparr> enable_early_out := v \<rparr>) =
      (if tot \<le> 0 then 1
       else (case scan_list (cfg\<lparr> enable_early_out := v \<rparr>) tot es (0, 0) of
               ((equal_count, processed), stopped) \<Rightarrow>
                 if processed \<le> 0 then 1
                 else (let sim = real_of_int equal_count / real_of_int tot;
                           sim = (if sim < 0 then 0 else sim);
                           sim = (if sim > 1 then 1 else sim)
                       in sim)))" for v
  proof -
    have "samples (cfg\<lparr> enable_early_out := v \<rparr>) A B r = es"
      unfolding es_def by (rule samples_cong; simp add: sX_def sY_def)
    then show ?thesis
      unfolding generic_scan_samples sX_early_out sY_early_out tot_def [symmetric]
      by (simp add: Let_def)
  qed
  show ?thesis
  proof (cases "tot \<le> 0")
    case True
    then show ?thesis
      by (simp add: gs)
  next
    case False
    then have tpos: "0 < tot" by simp
    then have ne: "es \<noteq> []" using len by auto
    have p': "0 < proc'" using e ne by simp
    have eq_ge: "0 \<le> eq'" and eq_le: "eq' \<le> cnt" using e by (simp_all add: cnt_def)
    have gF: "generic_scan A B r ?cF = real_of_int cnt / real_of_int tot"
      using tpos clamp_ratio [OF cnt_ge cnt_le tpos]
      by (simp add: gs full)
    have gE: "generic_scan A B r ?cE = real_of_int eq' / real_of_int tot"
      using tpos p' clamp_ratio [OF eq_ge order_trans [OF eq_le cnt_le] tpos]
      by (simp add: gs early)
    have le: "real_of_int eq' / real_of_int tot \<le> real_of_int cnt / real_of_int tot"
      using eq_le tpos by (simp add: divide_right_mono)
    have alt: "eq' = cnt \<or> real_of_int cnt / real_of_int tot < similarity_threshold cfg"
    proof (cases fl)
      case False
      then show ?thesis using e by (simp add: cnt_def)
    next
      case True
      then have b: "real_of_int (eq' + (tot - proc')) / real_of_int tot < similarity_threshold cfg"
        using e by simp
      have "cnt \<le> eq' + (tot - proc')"
        using e len by (simp add: cnt_def)
      then have "real_of_int cnt / real_of_int tot
                   \<le> real_of_int (eq' + (tot - proc')) / real_of_int tot"
        using tpos by (simp add: divide_right_mono)
      with b show ?thesis by simp
    qed
    show ?thesis
      unfolding gE gF using le alt by auto
  qed
qed

lemma fast_path_early_out:
  "fast_path A r (cfg\<lparr> enable_early_out := v \<rparr>) = fast_path A r cfg"
  by (simp add: fast_path_def)

lemma fast_path_similarity_early_out:
  "fast_path_similarity A B (cfg\<lparr> enable_early_out := v \<rparr>) = fast_path_similarity A B cfg"
  by (simp add: fast_path_similarity_def)


section \<open>Non-positive sample steps\<close>

text \<open>
  C8, as amended.  When a sample step is not positive, the similarity is the one computed
  with each non-positive step replaced by 1, provided the configuration with the
  replaced steps is not served by the fast path (its tolerance is positive, or one of its
  steps is not 1, or the effective region is not the whole frame).
\<close>

theorem nonpositive_steps_coerced:
  assumes "sample_step_x cfg \<le> 0 \<or> sample_step_y cfg \<le> 0"
    and "\<not> fast_path A (compute_roi (Some A) (Some B) roi)
            (cfg\<lparr> sample_step_x := (if sample_step_x cfg \<le> 0 then 1 else sample_step_x cfg),
                  sample_step_y := (if sample_step_y cfg \<le> 0 then 1 else sample_step_y cfg) \<rparr>)"
  shows "CalculateSimilarity (Some A) (Some B) roi cfg =
         CalculateSimilarity (Some A) (Some B) roi
            (cfg\<lparr> sample_step_x := (if sample_step_x cfg \<le> 0 then 1 else sample_step_x cfg),
                  sample_step_y := (if sample_step_y cfg \<le> 0 then 1 else sample_step_y cfg) \<rparr>)"
proof -
  let ?c = "cfg\<lparr> sample_step_x := (if sample_step_x cfg \<le> 0 then 1 else sample_step_x cfg),
                  sample_step_y := (if sample_step_y cfg \<le> 0 then 1 else sample_step_y cfg) \<rparr>"
  let ?r = "compute_roi (Some A) (Some B) roi"
  have nf: "\<not> fast_path A ?r cfg"
    using assms(1) by (auto simp: fast_path_def)
  have g: "generic_scan A B ?r ?c = generic_scan A B ?r cfg"
    by (rule generic_scan_cong) (simp_all add: sX_def sY_def)
  show ?thesis
    using nf assms(2) g by (simp add: CalculateSimilarity_def Let_def)
qed

theorem nonpositive_steps_coerced_witness:
  "(sample_step_x (default_settings\<lparr> per_channel_tolerance := 1, sample_step_x := 0 \<rparr>) \<le> 0
     \<or> sample_step_y (default_settings\<lparr> per_channel_tolerance := 1, sample_step_x := 0 \<rparr>) \<le> 0)
   \<and> \<not> fast_path (make_solid 3 1 0)
        (compute_roi (Some (make_solid 3 1 0)) (Some (setPixel (make_solid 3 1 0) 0 0 5)) None)
        (default_settings\<lparr> per_channel_tolerance := 1, sample_step_x := 1 \<rparr>)
   \<and> CalculateSimilarity (Some (make_solid 3 1 0)) (Some (setPixel (make_solid 3 1 0) 0 0 5)) None
        (default_settings\<lparr> per_channel_tolerance := 1, sample_step_x := 0 \<rparr>) =
       CalculateSimilarity (Some (make_solid 3 1 0)) (Some (setPixel (make_solid 3 1 0) 0 0 5)) None
        (default_settings\<lparr> per_channel_tolerance := 1, sample_step_x := 1 \<rparr>)"
proof -
  let ?c = "default_settings\<lparr> per_channel_tolerance := 1, sample_step_x := 0 \<rparr>"
  let ?A = "make_solid 3 1 0" and ?B = "setPixel (make_solid 3 1 0) 0 0 5"
  have e: "?c\<lparr> sample_step_x := (if sample_step_x ?c \<le> 0 then 1 else sample_step_x ?c),
               sample_step_y := (if sample_step_y ?c \<le> 0 then 1 else sample_step_y ?c) \<rparr>
           = default_settings\<lparr> per_channel_tolerance := 1, sample_step_x := 1 \<rparr>"
    by (simp add: default_settings_def)
  have h1: "sample_step_x ?c \<le> 0 \<or> sample_step_y ?c \<le> 0"
    by simp
  have h2: "\<not> fast_path ?A (compute_roi (Some ?A) (Some ?B) None)
             (default_settings\<lparr> per_channel_tolerance := 1, sample_step_x := 1 \<rparr>)"
    by (simp add: fast_path_def)
  from nonpositive_steps_coerced [of ?c ?A ?B None] h1 h2 show ?thesis
    unfolding e by blast
qed

text \<open>
  C8 fails where the fast path applies to the configuration with the replaced steps: the
  fast path is entered on the steps as configured, before they are coerced.  For two
  30-by-1 bitmaps that differ in the first and the last pixel, a step of 0 leads to the
  exact scan and the score 28/30, a step of 1 to the fast path, whose bounding box covers
  the whole frame, and the score 0.
\<close>

theorem nonpositive_step_fast_path_differs:
  "CalculateSimilarity (Some (make_solid 30 1 0))
     (Some (setPixel (setPixel (make_solid 30 1 0) 0 0 5) 29 0 5)) None
     (default_settings\<lparr> sample_step_x := 0 \<rparr>) = 14 / 15
   \<and> CalculateSimilarity (Some (make_solid 30 1 0))
     (Some (setPixel (setPixel (make_solid 30 1 0) 0 0 5) 29 0 5)) None
     (default_settings\<lparr> sample_step_x := 1 \<rparr>) = 0"
  by (simp add: sim_eval)


section \<open>The early-out bound\<close>

text \<open>
  C3.  On the same bitmaps, region and configuration, the score with the early-out
  enabled is at most the score with it disabled; the two scores are equal or the full
  score is below the similarity threshold; hence both runs classify the pair alike.
  This holds on every path of \<^verbatim>\<open>CalculateSimilarity\<close>, the degenerate results and the fast
  path ignoring the flag.  On the generic scan the full score is the share of equal
  samples, and an early exit happens only when even the best case is below the threshold.
\<close>

theorem early_out_score:
  "CalculateSimilarity a b roi (cfg\<lparr> enable_early_out := True \<rparr>)
       \<le> CalculateSimilarity a b roi (cfg\<lparr> enable_early_out := False \<rparr>)
   \<and> (CalculateSimilarity a b roi (cfg\<lparr> enable_early_out := True \<rparr>)
         = CalculateSimilarity a b roi (cfg\<lparr> enable_early_out := False \<rparr>)
      \<or> CalculateSimilarity a b roi (cfg\<lparr> enable_early_out := False \<rparr>) < similarity_threshold cfg)
   \<and> ((similarity_threshold cfg \<le> CalculateSimilarity a b roi (cfg\<lparr> enable_early_out := True \<rparr>))
       = (similarity_threshold cfg \<le> CalculateSimilarity a b roi (cfg\<lparr> enable_early_out := False \<rparr>)))"
proof -
  let ?cE = "cfg\<lparr> enable_early_out := True \<rparr>" and ?cF = "cfg\<lparr> enable_early_out := False \<rparr>"
  let ?r = "compute_roi a b roi"
  have main: "CalculateSimilarity a b roi ?cE \<le> CalculateSimilarity a b roi ?cF
      \<and> (CalculateSimilarity a b roi ?cE = CalculateSimilarity a b roi ?cF
         \<or> CalculateSimilarity a b roi ?cF < similarity_threshold cfg)"
  proof (cases "\<exists>A B. a = Some A \<and> b = Some B \<and> getWidth A = getWidth B \<and> getHeight A = getHeight B
                  \<and> r_left ?r < r_right ?r \<and> r_top ?r < r_bottom ?r \<and> \<not> fast_path A ?r cfg")
    case True
    then obtain A B where ab: "a = Some A" "b = Some B" "getWidth A = getWidth B"
        "getHeight A = getHeight B" and r: "r_left ?r < r_right ?r" "r_top ?r < r_bottom ?r"
        and nf: "\<not> fast_path A ?r cfg"
      by blast
    have "CalculateSimilarity a b roi ?cE = generic_scan A B ?r ?cE"
      and "CalculateSimilarity a b roi ?cF = generic_scan A B ?r ?cF"
      using ab r nf by (simp_all add: CalculateSimilarity_def Let_def fast_path_early_out)
    then show ?thesis
      using generic_scan_early_out [OF r, of A B cfg] by simp
  next
    case False
    then have "CalculateSimilarity a b roi ?cE = CalculateSimilarity a b roi ?cF"
      by (auto simp add: CalculateSimilarity_def Let_def fast_path_early_out
            fast_path_similarity_early_out split: option.splits)
    then show ?thesis by simp
  qed
  then show ?thesis by auto
qed


theorem early_out_score_witness:
  "CalculateSimilarity (Some (make_solid 4 1 0)) (Some (setPixel (make_solid 4 1 0) 0 0 5)) None
     (default_settings\<lparr> per_channel_tolerance := 1, enable_early_out := True \<rparr>) = 0
   \<and> CalculateSimilarity (Some (make_solid 4 1 0)) (Some (setPixel (make_solid 4 1 0) 0 0 5)) None
     (default_settings\<lparr> per_channel_tolerance := 1, enable_early_out := False \<rparr>) = 3 / 4
   \<and> CalculateSimilarity (Some (make_solid 4 1 0)) (Some (setPixel (make_solid 4 1 0) 0 0 5)) None
     (default_settings\<lparr> per_channel_tolerance := 1, enable_early_out := False \<rparr>)
       < similarity_threshold (default_settings\<lparr> per_channel_tolerance := 1 \<rparr>)"
proof -
  let ?c = "default_settings\<lparr> per_channel_tolerance := 1 \<rparr>"
  let ?A = "Some (make_solid 4 1 0)" and ?B = "Some (setPixel (make_solid 4 1 0) 0 0 5)"
  have E: "CalculateSimilarity ?A ?B None (?c\<lparr> enable_early_out := True \<rparr>) = 0"
    by (simp add: sim_eval channel_distance_def LICE_GETR_def LICE_GETG_def LICE_GETB_def
          LICE_GETA_def)
  have F: "CalculateSimilarity ?A ?B None (?c\<lparr> enable_early_out := False \<rparr>) = 3 / 4"
    by (simp add: sim_eval channel_distance_def LICE_GETR_def LICE_GETG_def LICE_GETB_def
          LICE_GETA_def)
  from early_out_score [of ?A ?B None ?c] E F
  have "CalculateSimilarity ?A ?B None (?c\<lparr> enable_early_out := False \<rparr>)
          < similarity_threshold ?c"
    by simp
  with E F show ?thesis by simp
qed


section \<open>Pixels between the sample points\<close>

lemma sample_points_mem:
  "v \<in> set (sample_points s lo hi) \<Longrightarrow> lo \<le> v \<and> v < hi \<and> (v - lo) mod s = 0"
proof (induction s lo hi rule: sample_points.induct)
  case (1 s lo hi)
  show ?case
  proof (cases "lo < hi \<and> 0 < s")
    case True
    then have unf: "sample_points s lo hi = lo # sample_points s (lo + s) hi"
      by (subst sample_points.simps) simp
    show ?thesis
    proof (cases "v = lo")
      case True
      with \<open>lo < hi \<and> 0 < s\<close> show ?thesis by simp
    next
      case False
      with "1.prems" unf have "v \<in> set (sample_points s (lo + s) hi)" by simp
      from "1.IH" [OF True this] have "lo + s \<le> v" "v < hi" "(v - (lo + s)) mod s = 0"
        by simp_all
      moreover have "(v - lo) mod s = (v - (lo + s)) mod s"
        using mod_add_self2 [of "v - (lo + s)" s] by (simp add: algebra_simps)
      ultimately show ?thesis using True by simp
    qed
  next
    case False
    then have "sample_points s lo hi = []"
      by (subst sample_points.simps) simp
    with "1.prems" show ?thesis by simp
  qed
qed

lemma compute_roi_bounds:
  assumes "0 \<le> getWidth A" and "getWidth A = getWidth B"
    and "0 \<le> getHeight A" and "getHeight A = getHeight B"
  shows "0 \<le> r_left (compute_roi (Some A) (Some B) roi)
       \<and> r_right (compute_roi (Some A) (Some B) roi) \<le> getWidth B
       \<and> 0 \<le> r_top (compute_roi (Some A) (Some B) roi)
       \<and> r_bottom (compute_roi (Some A) (Some B) roi) \<le> getHeight B"
  using assms by (cases roi) (auto simp: compute_roi_def clampi_def Let_def)

lemma compute_roi_sizes:
  assumes "getWidth A' = getWidth A" and "getHeight A' = getHeight A"
    and "getWidth B' = getWidth B" and "getHeight B' = getHeight B"
  shows "compute_roi (Some A') (Some B') roi = compute_roi (Some A) (Some B) roi"
  using assms by (simp add: compute_roi_def)

lemma compute_roi_commute:
  "compute_roi (Some B) (Some A) roi = compute_roi (Some A) (Some B) roi"
  by (cases roi) (auto simp: compute_roi_def Let_def)

lemma samples_pixels:
  assumes "\<And>xx yy. xx \<in> set (sample_points (sX cfg) (r_left r) (r_right r)) \<Longrightarrow>
             yy \<in> set (sample_points (sY cfg) (r_top r) (r_bottom r)) \<Longrightarrow>
             pixel_at a' xx yy = pixel_at a xx yy \<and> pixel_at b' xx yy = pixel_at b xx yy"
  shows "samples cfg a' b' r = samples cfg a b r"
proof -
  obtain p1 span1 where oa: "scan_origin a = (p1, span1)"
    by (cases "scan_origin a")
  obtain p2 span2 where ob: "scan_origin b = (p2, span2)"
    by (cases "scan_origin b")
  obtain p1' span1' where oa': "scan_origin a' = (p1', span1')"
    by (cases "scan_origin a'")
  obtain p2' span2' where ob': "scan_origin b' = (p2', span2')"
    by (cases "scan_origin b'")
  have row: "row_samples cfg p1' span1' p2' span2' r yy = row_samples cfg p1 span1 p2 span2 r yy"
    if "yy \<in> set (sample_points (sY cfg) (r_top r) (r_bottom r))" for yy
    unfolding row_samples_def
  proof (rule map_cong [OF refl])
    fix xx assume "xx \<in> set (sample_points (sX cfg) (r_left r) (r_right r))"
    from assms [OF this that]
    show "pixels_equal (p1' (yy * span1' + xx)) (p2' (yy * span2' + xx)) cfg =
          pixels_equal (p1 (yy * span1 + xx)) (p2 (yy * span2 + xx)) cfg"
      by (simp add: pixel_at_def oa ob oa' ob')
  qed
  have "map (row_samples cfg p1' span1' p2' span2' r) (sample_points (sY cfg) (r_top r) (r_bottom r))
      = map (row_samples cfg p1 span1 p2 span2 r) (sample_points (sY cfg) (r_top r) (r_bottom r))"
    by (rule map_cong [OF refl]) (rule row)
  then show ?thesis
    by (simp only: samples_def oa ob oa' ob' prod.case)
qed

lemma generic_scan_same_samples:
  assumes "samples cfg a' b' r = samples cfg a b r"
  shows "generic_scan a' b' r cfg = generic_scan a b r cfg"
  unfolding generic_scan_samples assms by (rule refl)


text \<open>
  C7.  Let \<open>a\<close> and \<open>b\<close> be bitmaps of equal size, and let \<open>b'\<close> have the size of \<open>b\<close> and
  agree with \<open>b\<close> on every pixel of the raster except the one in column \<open>x0\<close> of row
  \<open>y0\<close>.  With sample steps of at least 2 in both axes, if \<open>x0\<close> is not of the form
  region-left + k * sample_step_x and \<open>y0\<close> is not of the form region-top + j *
  sample_step_y, for the effective region, then \<open>b'\<close> scores against \<open>a\<close> exactly as
  \<open>b\<close> does, in either order of the arguments.  Hence two bitmaps that differ in one
  such pixel only score as they do with that pixel made equal.
\<close>

theorem unsampled_pixel:
  assumes "getWidth a = getWidth b" and "getHeight a = getHeight b"
    and "getWidth b' = getWidth b" and "getHeight b' = getHeight b"
    and "0 \<le> x0" and "x0 < getWidth b" and "0 \<le> y0" and "y0 < getHeight b"
    and "\<forall>x y. 0 \<le> x \<and> x < getWidth b \<and> 0 \<le> y \<and> y < getHeight b \<and> (x, y) \<noteq> (x0, y0)
           \<longrightarrow> pixel_at b' x y = pixel_at b x y"
    and "2 \<le> sample_step_x cfg" and "2 \<le> sample_step_y cfg"
    and "(x0 - r_left (compute_roi (Some a) (Some b) roi)) mod sample_step_x cfg \<noteq> 0"
    and "(y0 - r_top (compute_roi (Some a) (Some b) roi)) mod sample_step_y cfg \<noteq> 0"
  shows "CalculateSimilarity (Some a) (Some b') roi cfg = CalculateSimilarity (Some a) (Some b) roi cfg
       \<and> CalculateSimilarity (Some b') (Some a) roi cfg = CalculateSimilarity (Some b) (Some a) roi cfg"
proof -
  define r where "r = compute_roi (Some a) (Some b) roi"
  have sx: "sX cfg = sample_step_x cfg"
    using assms(10) by (simp add: sX_def)
  have nf: "\<not> fast_path c r cfg" for c
    using assms(10) by (simp add: fast_path_def)
  have bnd: "0 \<le> r_left r" "r_right r \<le> getWidth b" "0 \<le> r_top r" "r_bottom r \<le> getHeight b"
    using compute_roi_bounds [of a b roi] assms(1,2,5-8) by (simp_all add: r_def)
  have off: "(x0 - r_left r) mod sample_step_x cfg \<noteq> 0"
    using assms(12) by (simp add: r_def)
  have agree: "pixel_at b' xx yy = pixel_at b xx yy"
    if "xx \<in> set (sample_points (sX cfg) (r_left r) (r_right r))"
      and "yy \<in> set (sample_points (sY cfg) (r_top r) (r_bottom r))" for xx yy
  proof -
    from sample_points_mem [OF that(1)]
    have mx: "r_left r \<le> xx" "xx < r_right r" "(xx - r_left r) mod sample_step_x cfg = 0"
      by (simp_all add: sx)
    from sample_points_mem [OF that(2)]
    have my: "r_top r \<le> yy" "yy < r_bottom r"
      by simp_all
    have "xx \<noteq> x0" using mx(3) off by auto
    then have "(xx, yy) \<noteq> (x0, y0)" by simp
    moreover have "0 \<le> xx" "xx < getWidth b" "0 \<le> yy" "yy < getHeight b"
      using mx my bnd by linarith+
    ultimately show ?thesis using assms(9) by blast
  qed
  have s1: "samples cfg a b' r = samples cfg a b r"
    by (rule samples_pixels) (simp add: agree)
  have s2: "samples cfg b' a r = samples cfg b a r"
    by (rule samples_pixels) (simp add: agree)
  have r1: "compute_roi (Some a) (Some b') roi = r"
    unfolding r_def using assms(3,4) by (intro compute_roi_sizes) simp_all
  have r3: "compute_roi (Some b) (Some a) roi = r"
    unfolding r_def by (rule compute_roi_commute)
  have r2: "compute_roi (Some b') (Some a) roi = r"
    unfolding r3 [symmetric] using assms(3,4) by (intro compute_roi_sizes) simp_all
  have g1: "generic_scan a b' r cfg = generic_scan a b r cfg"
    using s1 by (rule generic_scan_same_samples)
  have g2: "generic_scan b' a r cfg = generic_scan b a r cfg"
    using s2 by (rule generic_scan_same_samples)
  have 1: "CalculateSimilarity (Some a) (Some b') roi cfg = CalculateSimilarity (Some a) (Some b) roi cfg"
    unfolding CalculateSimilarity_def r1 r_def [symmetric] using g1 assms(3,4)
    by (simp add: Let_def nf)
  have 2: "CalculateSimilarity (Some b') (Some a) roi cfg = CalculateSimilarity (Some b) (Some a) roi cfg"
    unfolding CalculateSimilarity_def r2 r3 using g2 assms(3,4)
    by (simp add: Let_def nf)
  from 1 2 show ?thesis by simp
qed


theorem unsampled_pixel_witness:
  "pixel_at (setPixel (make_solid 4 4 0) 1 1 (LICE_RGBA 255 255 255 255)) 1 1
     \<noteq> pixel_at (make_solid 4 4 0) 1 1
   \<and> 2 \<le> sample_step_x (default_settings\<lparr> sample_step_x := 2, sample_step_y := 2 \<rparr>)
   \<and> 2 \<le> sample_step_y (default_settings\<lparr> sample_step_x := 2, sample_step_y := 2 \<rparr>)
   \<and> (1 - r_left (compute_roi (Some (make_solid 4 4 0)) (Some (make_solid 4 4 0)) None)) mod
         sample_step_x (default_settings\<lparr> sample_step_x := 2, sample_step_y := 2 \<rparr>) \<noteq> 0
   \<and> (1 - r_top (compute_roi (Some (make_solid 4 4 0)) (Some (make_solid 4 4 0)) None)) mod
         sample_step_y (default_settings\<lparr> sample_step_x := 2, sample_step_y := 2 \<rparr>) \<noteq> 0
   \<and> CalculateSimilarity (Some (make_solid 4 4 0))
         (Some (setPixel (make_solid 4 4 0) 1 1 (LICE_RGBA 255 255 255 255))) None
         (default_settings\<lparr> sample_step_x := 2, sample_step_y := 2 \<rparr>) = 1"
proof -
  let ?A = "make_solid 4 4 0"
  let ?B = "setPixel (make_solid 4 4 0) 1 1 (LICE_RGBA 255 255 255 255)"
  let ?c = "default_settings\<lparr> sample_step_x := 2, sample_step_y := 2 \<rparr>"
  have h1: "getWidth ?A = getWidth ?A" and h2: "getHeight ?A = getHeight ?A"
    by simp_all
  have h3: "getWidth ?B = getWidth ?A" and h4: "getHeight ?B = getHeight ?A"
    by (simp_all add: make_solid_def setPixel_def)
  have h5: "(0::int) \<le> 1" and h6: "1 < getWidth ?A" and h8: "1 < getHeight ?A"
    by (simp_all add: make_solid_def)
  have h9: "\<forall>x y. 0 \<le> x \<and> x < getWidth ?A \<and> 0 \<le> y \<and> y < getHeight ?A \<and> (x, y) \<noteq> (1, 1)
           \<longrightarrow> pixel_at ?B x y = pixel_at ?A x y"
    by (auto simp: pixel_at_def scan_origin_def make_solid_def setPixel_def) presburger
  have h10: "2 \<le> sample_step_x ?c" and h11: "2 \<le> sample_step_y ?c"
    by simp_all
  have h12: "(1 - r_left (compute_roi (Some ?A) (Some ?A) None)) mod sample_step_x ?c \<noteq> 0"
    by (simp add: compute_roi_def)
  have h13: "(1 - r_top (compute_roi (Some ?A) (Some ?A) None)) mod sample_step_y ?c \<noteq> 0"
    by (simp add: compute_roi_def)
  have same: "CalculateSimilarity (Some ?A) (Some ?A) None ?c = 1"
    by (simp add: sim_eval)
  have diff: "pixel_at ?B 1 1 \<noteq> pixel_at ?A 1 1"
    by (simp add: pixel_at_def scan_origin_def make_solid_def setPixel_def LICE_RGBA_def)
  from unsampled_pixel [OF h1 h2 h3 h4 h5 h6 h5 h8 h9 h10 h11 h12 h13] same
  have "CalculateSimilarity (Some ?A) (Some ?B) None ?c = 1"
    by simp
  with diff h10 h11 h12 h13 show ?thesis by blast
qed


end
